theory Spec2Isabelle
  imports Complex_Main "HOL-Library.Sublist"
begin

section \<open>Values of the notebook\<close>

text \<open>
  The notebook \<^verbatim>\<open>grammaticalgender fr-de.ipynb\<close> is a straight-line pipeline of
  library calls over one table. A cell of a text column is a Python \<^verbatim>\<open>str\<close> or the
  missing value \<^verbatim>\<open>NaN\<close>; here \<open>Some s\<close> is the string \<open>s\<close> and \<open>None\<close> is
  \<^verbatim>\<open>NaN\<close>. A \<^typ>\<open>char\<close> stands for one character of a Python string.
\<close>

type_synonym cell = "string option"

text \<open>
  Every exception the modelled calls can raise is a value of this type. The last three
  are \<^verbatim>\<open>ValueError\<close>s of scikit-learn: arguments of inconsistent lengths, an empty list
  of labels, and a list of labels of which none occurs in \<^verbatim>\<open>y_true\<close>.
\<close>

datatype error =
    FileNotFoundError
  | ParserError
  | AttributeError
  | TypeError
  | IndexError
  | InconsistentLength
  | NoLabels
  | LabelNotInYTrue

section \<open>Regular expressions of the Extractor\<close>

text \<open>
  The two patterns of the notebook are
  \<^verbatim>\<open>(\{[mfn]\}|\{[mfn].pl\})\<close> for the German field and
  \<^verbatim>\<open>(\{[mf]\}|\{[mf].pl\})\<close> for the French field.
  They use literals, character classes, the dot, concatenation, alternation and one
  capturing group around the whole pattern.
\<close>

datatype regex =
    Lit char
  | Class "char list"
  | Dot
  | Seq regex regex
  | Alt regex regex
  | Group regex

text \<open>
  A backtracking matcher in the manner of Python's \<^verbatim>\<open>re\<close>: \<open>match_re r s\<close> lists,
  in order of preference, every way in which \<open>r\<close> matches a prefix of \<open>s\<close>, as the pair
  of the matched text and the rest. An alternation tries its left branch first. The
  dot matches any character except the line feed (no \<^verbatim>\<open>DOTALL\<close> flag is given).
\<close>

fun match_re :: "regex \<Rightarrow> string \<Rightarrow> (string \<times> string) list" where
  "match_re (Lit c) s = (case s of [] \<Rightarrow> [] | x # xs \<Rightarrow> if x = c then [([x], xs)] else [])"
| "match_re (Class cs) s = (case s of [] \<Rightarrow> [] | x # xs \<Rightarrow> if x \<in> set cs then [([x], xs)] else [])"
| "match_re Dot s = (case s of [] \<Rightarrow> [] | x # xs \<Rightarrow> if x \<noteq> CHR 0x0A then [([x], xs)] else [])"
| "match_re (Seq r1 r2) s =
     concat (map (\<lambda>(m1, rest1). map (\<lambda>(m2, rest2). (m1 @ m2, rest2)) (match_re r2 rest1))
                 (match_re r1 s))"
| "match_re (Alt r1 r2) s = match_re r1 s @ match_re r2 s"
| "match_re (Group r) s = match_re r s"

text \<open>
  \<^verbatim>\<open>re.search\<close>: the start positions are tried from left to right, and at the
  first position where the pattern matches, the preferred match is taken. Both
  patterns are one group, so group 1 is the whole matched text.
\<close>

fun search :: "regex \<Rightarrow> string \<Rightarrow> string option" where
  "search r [] = (case match_re r [] of [] \<Rightarrow> None | (m, _) # _ \<Rightarrow> Some m)"
| "search r (x # xs) = (case match_re r (x # xs) of [] \<Rightarrow> search r xs | (m, _) # _ \<Rightarrow> Some m)"

definition gender_pattern :: "string \<Rightarrow> regex" where
  "gender_pattern gs =
     Group (Alt (Seq (Lit CHR ''{'') (Seq (Class gs) (Lit CHR ''}'')))
                (Seq (Lit CHR ''{'') (Seq (Class gs) (Seq Dot
                   (Seq (Lit CHR ''p'') (Seq (Lit CHR ''l'') (Lit CHR ''}'')))))))"

definition de_pattern :: regex where
  "de_pattern = gender_pattern ''mfn''"

definition fr_pattern :: regex where
  "fr_pattern = gender_pattern ''mf''"

text \<open>
  \<^verbatim>\<open>Series.str.extract(pat)\<close> on one cell: the first group of the first match, and
  \<^verbatim>\<open>NaN\<close> when nothing matches or when the cell is \<^verbatim>\<open>NaN\<close> itself.
\<close>

definition str_extract :: "regex \<Rightarrow> cell \<Rightarrow> cell" where
  "str_extract pat c = (case c of None \<Rightarrow> None | Some s \<Rightarrow> search pat s)"

text \<open>
  The second cell of the Extractor replaces a tag such as \<^verbatim>\<open>{f}\<close> by its second
  character: \<^verbatim>\<open>.map(lambda s: s[1])\<close>. Python raises \<^verbatim>\<open>IndexError\<close> when the
  string is too short, and \<^verbatim>\<open>TypeError\<close> when the lambda is handed \<^verbatim>\<open>NaN\<close>
  (a float cannot be subscripted).
\<close>

definition subscript :: "string \<Rightarrow> nat \<Rightarrow> error + string" where
  "subscript s i = (if i < length s then Inr [s ! i] else Inl IndexError)"

definition strip_braces :: "cell \<Rightarrow> error + cell" where
  "strip_braces c = (case c of None \<Rightarrow> Inl TypeError | Some s \<Rightarrow> map_sum id Some (subscript s 1))"

text \<open>
  The Extractor on one text field: the pattern is searched, a cell without a match is
  \<^verbatim>\<open>NaN\<close> (its row is dropped before the lambda runs), and a matched tag is reduced
  to its gender letter.
\<close>

definition Extractor :: "regex \<Rightarrow> cell \<Rightarrow> error + cell" where
  "Extractor pat c = (case str_extract pat c of None \<Rightarrow> Inr None | Some s \<Rightarrow> strip_braces (Some s))"

text \<open>The language of a pattern, to state what "the pattern matches" means.\<close>

fun lang :: "regex \<Rightarrow> string set" where
  "lang (Lit c) = {[c]}"
| "lang (Class cs) = {[c] | c. c \<in> set cs}"
| "lang Dot = {[c] | c. c \<noteq> CHR 0x0A}"
| "lang (Seq r1 r2) = {u @ v | u v. u \<in> lang r1 \<and> v \<in> lang r2}"
| "lang (Alt r1 r2) = lang r1 \<union> lang r2"
| "lang (Group r) = lang r"

text \<open>The pattern matches the text at position \<open>i\<close>: a word of its language starts there.\<close>

definition matches_at :: "regex \<Rightarrow> string \<Rightarrow> nat \<Rightarrow> bool" where
  "matches_at pat text i \<longleftrightarrow> i \<le> length text \<and> (\<exists>m. m \<in> lang pat \<and> prefix m (drop i text))"

section \<open>The table and its rows\<close>

text \<open>
  The Loader names four columns, \<^verbatim>\<open>names=['de', 'fr', 'cat', 'comment']\<close>. The
  comment column is dropped at once; the Extractor adds the two gender columns and the
  Grouper adds the grouped German gender. A cell holds the text of its field as the
  file has it, or \<^verbatim>\<open>NaN\<close> where the field is missing. Whether pandas holds a column
  as text or as numbers is the dtype of the column, which the Extractor depends on.
\<close>

record entry =
  de :: cell
  fr :: cell
  cat :: cell

record Record = entry +
  comment :: cell

record gendered = entry +
  de_gender :: cell
  fr_gender :: cell

record grouped = gendered +
  de_gender_grouped :: cell

subsection \<open>Loader\<close>













text \<open>\<^verbatim>\<open>defr.drop(labels=['comment'], axis=1)\<close>\<close>

definition drop_comment :: "Record \<Rightarrow> entry" where
  "drop_comment r = \<lparr>de = de r, fr = fr r, cat = cat r\<rparr>"

subsection \<open>Filter\<close>

text \<open>
  \<^verbatim>\<open>nouns = defr[defr.cat == 'noun'].reset_index(drop=True)\<close>: the comparison
  gives a column of booleans (\<^verbatim>\<open>NaN == 'noun'\<close> is false), and indexing by it keeps
  the rows whose boolean is true, as a new table. Renumbering the index does not change
  the rows. The notebook's predicate is equality with \<^verbatim>\<open>'noun'\<close>.
\<close>

definition boolean_index :: "'a list \<Rightarrow> bool list \<Rightarrow> 'a list" where
  "boolean_index rows flags = map fst (filter snd (zip rows flags))"

definition Filter :: "(cell \<Rightarrow> bool) \<Rightarrow> entry list \<Rightarrow> entry list" where
  "Filter P rows = boolean_index rows (map (\<lambda>r. P (cat r)) rows)"

definition is_noun :: "cell \<Rightarrow> bool" where
  "is_noun c \<longleftrightarrow> c = Some ''noun''"

text \<open>The cell as a step on the two variables it reads and writes.\<close>

record workspace =
  defr :: "entry list"
  nouns :: "entry list"

definition restrict_to_nouns :: "workspace \<Rightarrow> workspace" where
  "restrict_to_nouns w = w\<lparr>nouns := Filter is_noun (defr w)\<rparr>"

subsection \<open>Extractor\<close>

text \<open>
  The \<^verbatim>\<open>.str\<close> accessor of \<^verbatim>\<open>nouns.de.str.extract(...)\<close> works on a column of text
  only: on a column of another dtype it raises \<^verbatim>\<open>AttributeError\<close>. The dtype of a
  column is fixed when the file is loaded, from all rows of the column, and the filter
  keeps it. A column of an empty table is a column of text (dtype \<^verbatim>\<open>object\<close>). A
  column in which every field is missing is a column of floats. A column with fields
  is a column of text unless the type inference of pandas converts its fields to
  numbers or booleans; which lists of fields it converts is decided inside the library
  and is the parameter \<open>converts\<close>, applied to the fields that are present.
\<close>

record dtypes =
  de_object :: bool
  fr_object :: bool

definition object_column :: "(string list \<Rightarrow> bool) \<Rightarrow> cell list \<Rightarrow> bool" where
  "object_column converts col \<longleftrightarrow>
     col = [] \<or>
     (let present = map the (filter (\<lambda>c. c \<noteq> None) col) in present \<noteq> [] \<and> \<not> converts present)"

definition infer_dtypes :: "(string list \<Rightarrow> bool) \<Rightarrow> entry list \<Rightarrow> dtypes" where
  "infer_dtypes converts rows =
     \<lparr>de_object = object_column converts (map de rows),
      fr_object = object_column converts (map fr rows)\<rparr>"

definition str_accessor :: "bool \<Rightarrow> error + unit" where
  "str_accessor is_object = (if is_object then Inr () else Inl AttributeError)"

text \<open>
  \<^verbatim>\<open>nouns['de_gender'] = nouns.de.str.extract(...)\<close> and the same for French, then
  \<^verbatim>\<open>nouns.dropna(axis=0)\<close>, which drops every row that has a \<^verbatim>\<open>NaN\<close> in any of its
  five columns, then the two \<^verbatim>\<open>.map(lambda s: s[1])\<close>, one column after the other.
\<close>

definition extract_genders :: "entry \<Rightarrow> gendered" where
  "extract_genders r =
     \<lparr>de = de r, fr = fr r, cat = cat r,
      de_gender = str_extract de_pattern (de r), fr_gender = str_extract fr_pattern (fr r)\<rparr>"

definition has_nan :: "gendered \<Rightarrow> bool" where
  "has_nan r \<longleftrightarrow> de r = None \<or> fr r = None \<or> cat r = None \<or> de_gender r = None \<or> fr_gender r = None"

definition dropna :: "gendered list \<Rightarrow> gendered list" where
  "dropna rows = filter (\<lambda>r. \<not> has_nan r) rows"

text \<open>\<^verbatim>\<open>Series.map(f)\<close>: \<open>f\<close> on every value in order; the first exception ends the call.\<close>

fun series_map :: "('a \<Rightarrow> error + 'b) \<Rightarrow> 'a list \<Rightarrow> error + 'b list" where
  "series_map f [] = Inr []"
| "series_map f (x # xs) =
     (case f x of
        Inl e \<Rightarrow> Inl e
      | Inr y \<Rightarrow> (case series_map f xs of Inl e \<Rightarrow> Inl e | Inr ys \<Rightarrow> Inr (y # ys)))"

definition strip_tags :: "gendered list \<Rightarrow> error + gendered list" where
  "strip_tags rows =
     (let kept = dropna rows in
      case series_map strip_braces (map de_gender kept) of
        Inl e \<Rightarrow> Inl e
      | Inr des \<Rightarrow>
          let kept1 = map2 (\<lambda>r v. r\<lparr>de_gender := v\<rparr>) kept des in
          case series_map strip_braces (map fr_gender kept1) of
            Inl e \<Rightarrow> Inl e
          | Inr frs \<Rightarrow> Inr (map2 (\<lambda>r v. r\<lparr>fr_gender := v\<rparr>) kept1 frs))"

text \<open>
  The two cells of the Extractor on the table \<^verbatim>\<open>nouns\<close>, whose columns have the
  dtypes \<open>dt\<close>: the accessor of the German column, then that of the French column, then
  the rows.
\<close>

definition nouns_gendered :: "dtypes \<Rightarrow> entry list \<Rightarrow> error + gendered list" where
  "nouns_gendered dt ns =
     (case str_accessor (de_object dt) of
        Inl e \<Rightarrow> Inl e
      | Inr _ \<Rightarrow>
      case str_accessor (fr_object dt) of
        Inl e \<Rightarrow> Inl e
      | Inr _ \<Rightarrow> strip_tags (map extract_genders ns))"



subsection \<open>Grouper\<close>

text \<open>
  \<^verbatim>\<open>nouns_gendered['de_gender'].map({'f': 'f', 'm': 'm', 'n': 'm'})\<close>. With a
  dictionary, \<^verbatim>\<open>Series.map\<close> looks every value up; a value that is not a key becomes
  \<^verbatim>\<open>NaN\<close>, and no exception is raised.
\<close>

definition grouping :: "string \<rightharpoonup> string" where
  "grouping = map_of [(''f'', ''f''), (''m'', ''m''), (''n'', ''m'')]"

definition Grouper :: "cell \<Rightarrow> error + cell" where
  "Grouper c = (case c of None \<Rightarrow> Inr None | Some l \<Rightarrow> Inr (grouping l))"

definition add_grouped :: "gendered \<Rightarrow> cell \<Rightarrow> grouped" where
  "add_grouped r v =
     \<lparr>de = de r, fr = fr r, cat = cat r, de_gender = de_gender r, fr_gender = fr_gender r,
      de_gender_grouped = v\<rparr>"

definition group_genders :: "gendered list \<Rightarrow> error + grouped list" where
  "group_genders rows =
     (case series_map Grouper (map de_gender rows) of
        Inl e \<Rightarrow> Inl e
      | Inr vs \<Rightarrow> Inr (map2 add_grouped rows vs))"

subsection \<open>Cross-tabulator\<close>

text \<open>
  \<^verbatim>\<open>sklearn.metrics.confusion_matrix(y_true, y_pred, labels=labels)\<close>. The two
  sequences must have one length (\<^verbatim>\<open>check_consistent_length\<close>) and hold labels
  only. With labels given: an empty label list is an error, an empty \<^verbatim>\<open>y_true\<close>
  gives the zero table, and a \<^verbatim>\<open>y_true\<close> without any of the labels is an error.
  Every label is turned into its index in \<^verbatim>\<open>labels\<close>
  (\<^verbatim>\<open>{y: x for x, y in enumerate(labels)}\<close>, so the last position of a repeated
  label, and \<^verbatim>\<open>n_labels + 1\<close> for an unknown label), pairs with an unknown label
  are removed, and cell \<open>(i, j)\<close> counts the remaining pairs \<open>(i, j)\<close>.
\<close>

definition check_targets :: "cell list \<Rightarrow> cell list \<Rightarrow> error + (string list \<times> string list)" where
  "check_targets y_true y_pred =
     (if length y_true \<noteq> length y_pred then Inl InconsistentLength
      else if None \<in> set y_true \<union> set y_pred then Inl TypeError
      else Inr (map the y_true, map the y_pred))"

definition label_to_ind :: "string list \<Rightarrow> string \<Rightarrow> nat" where
  "label_to_ind labels x =
     (case map_of (rev (zip labels [0..<length labels])) x of
        None \<Rightarrow> length labels + 1
      | Some i \<Rightarrow> i)"

definition coo_to_array :: "nat \<Rightarrow> (nat \<times> nat) list \<Rightarrow> nat list list" where
  "coo_to_array n entries = map (\<lambda>i. map (\<lambda>j. count_list entries (i, j)) [0..<n]) [0..<n]"

definition confusion_matrix :: "cell list \<Rightarrow> cell list \<Rightarrow> string list \<Rightarrow> error + nat list list" where
  "confusion_matrix y_true y_pred labels =
     (case check_targets y_true y_pred of
        Inl e \<Rightarrow> Inl e
      | Inr (yt, yp) \<Rightarrow>
          let n = length labels in
          if n = 0 then Inl NoLabels
          else if yt = [] then Inr (replicate n (replicate n 0))
          else if set yt \<inter> set labels = {} then Inl LabelNotInYTrue
          else
            let ti = map (label_to_ind labels) yt;
                pi = map (label_to_ind labels) yp;
                kept = filter (\<lambda>(t, p). p < n \<and> t < n) (zip ti pi)
            in Inr (coo_to_array n kept))"

text \<open>\<^verbatim>\<open>cm.sum()\<close>, \<^verbatim>\<open>cm.diagonal()\<close> and \<^verbatim>\<open>cm[:, :2]\<close> on a table.\<close>

definition cells_total :: "nat list list \<Rightarrow> nat" where
  "cells_total cm = sum_list (map sum_list cm)"

definition diagonal :: "nat list list \<Rightarrow> nat list" where
  "diagonal cm = map (\<lambda>i. cm ! i ! i) (filter (\<lambda>i. i < length (cm ! i)) [0..<length cm])"

definition first_two_columns :: "nat list list \<Rightarrow> nat list list" where
  "first_two_columns cm = map (take 2) cm"

text \<open>
  \<^verbatim>\<open>cm2.diagonal().sum() / cm2.sum()\<close>: the quotient of two integers, here as an
  exact rational. For the empty table numpy computes \<^verbatim>\<open>0 / 0\<close>, which is \<^verbatim>\<open>nan\<close>:
  that is \<open>None\<close>.
\<close>

definition diagonal_ratio :: "nat list list \<Rightarrow> rat option" where
  "diagonal_ratio cm =
     (if cells_total cm = 0 then None else Some (of_nat (sum_list (diagonal cm)) / of_nat (cells_total cm)))"

subsection \<open>The notebook from the loaded table on\<close>

record outcome =
  out_gendered :: "grouped list"
  out_cm :: "nat list list"
  out_cm2 :: "nat list list"
  out_ratio :: "rat option"
  out_chi2_table :: "nat list list"

text \<open>
  The cells in their order, from the filter to the two calls of
  \<^verbatim>\<open>matthews_corrcoef\<close>. \<^verbatim>\<open>matthews_corrcoef\<close> is present with the checks it
  makes on its two arguments before it computes; the coefficient itself, a floating
  point number, is not modelled. The plots and the tests of independence
  (\<^verbatim>\<open>chi2_contingency\<close>, \<^verbatim>\<open>fisher_exact\<close>) are not modelled either; of the
  chi-squared cell only the table \<^verbatim>\<open>cm[:, :2]\<close> that it hands over is kept.
\<close>

definition notebook :: "(string list \<Rightarrow> bool) \<Rightarrow> Record list \<Rightarrow> error + outcome" where
  "notebook converts loaded =
     (let defr = map drop_comment loaded;
          dt = infer_dtypes converts defr;
          ns = Filter is_noun defr in
      case nouns_gendered dt ns of
        Inl e \<Rightarrow> Inl e
      | Inr ng \<Rightarrow>
      case confusion_matrix (map de_gender ng) (map fr_gender ng) [''m'', ''f'', ''n''] of
        Inl e \<Rightarrow> Inl e
      | Inr cm \<Rightarrow>
      case group_genders ng of
        Inl e \<Rightarrow> Inl e
      | Inr gg \<Rightarrow>
      case confusion_matrix (map de_gender_grouped gg) (map fr_gender gg) [''m'', ''f''] of
        Inl e \<Rightarrow> Inl e
      | Inr cm2 \<Rightarrow>
      case check_targets (map de_gender gg) (map fr_gender gg) of
        Inl e \<Rightarrow> Inl e
      | Inr _ \<Rightarrow>
      case check_targets (map de_gender_grouped gg) (map fr_gender gg) of
        Inl e \<Rightarrow> Inl e
      | Inr _ \<Rightarrow>
          Inr \<lparr>out_gendered = gg, out_cm = cm, out_cm2 = cm2, out_ratio = diagonal_ratio cm2,
               out_chi2_table = first_two_columns cm\<rparr>)"

subsection \<open>Auxiliary definitions for the statements\<close>

text \<open>
  What the two \<^verbatim>\<open>.map(lambda s: s[1])\<close> calls make of one row whose two tags are
  present: each tag is replaced by its second character.
\<close>

definition finish :: "gendered \<Rightarrow> gendered" where
  "finish r = r\<lparr>de_gender := Some [the (de_gender r) ! 1], fr_gender := Some [the (fr_gender r) ! 1]\<rparr>"


text \<open>The Grouper on one cell as a plain function, and the table that the Cross-tabulator
  builds from two sequences of labels when every pair is counted.\<close>

definition grouped_cell :: "cell \<Rightarrow> cell" where
  "grouped_cell c = (case c of None \<Rightarrow> None | Some l \<Rightarrow> grouping l)"

definition table_of :: "string list \<Rightarrow> string list \<Rightarrow> string list \<Rightarrow> nat list list" where
  "table_of labels ys ps =
     coo_to_array (length labels) (zip (map (label_to_ind labels) ys) (map (label_to_ind labels) ps))"

text \<open>The German and the French column of a table are columns of text.\<close>

definition text_columns :: "(string list \<Rightarrow> bool) \<Rightarrow> Record list \<Rightarrow> bool" where
  "text_columns converts loaded \<longleftrightarrow>
     object_column converts (map de loaded) \<and> object_column converts (map fr loaded)"

text \<open>
  A small loaded table, what the notebook computes from it, and a stand-in for the
  parameter \<open>converts\<close>: a column is converted when all its fields are numerals.
\<close>

definition digits_only :: "string list \<Rightarrow> bool" where
  "digits_only present =
     list_all (\<lambda>s. s \<noteq> [] \<and> list_all (\<lambda>c. c \<in> set ''0123456789'') s) present"

definition sample_records :: "Record list" where
  "sample_records =
     [\<lparr>de = Some ''Haus {n}'', fr = Some ''maison {f}'', cat = Some ''noun'', comment = None\<rparr>,
      \<lparr>de = Some ''Hund {m}'', fr = Some ''chien {m}'', cat = Some ''noun'', comment = None\<rparr>,
      \<lparr>de = Some ''laufen'', fr = Some ''courir'', cat = Some ''verb'', comment = None\<rparr>,
      \<lparr>de = Some ''Kind {n}'', fr = Some ''enfant {m}'', cat = Some ''noun'', comment = Some ''[child]''\<rparr>,
      \<lparr>de = Some ''Eltern {pl}'', fr = Some ''parents {m.pl}'', cat = Some ''noun'', comment = None\<rparr>,
      \<lparr>de = Some ''Frau {f}'', fr = Some ''femme {f}'', cat = Some ''noun'', comment = None\<rparr>]"

definition sample_gendered :: "grouped list" where
  "sample_gendered =
     [\<lparr>de = Some ''Haus {n}'', fr = Some ''maison {f}'', cat = Some ''noun'',
       de_gender = Some ''n'', fr_gender = Some ''f'', de_gender_grouped = Some ''m''\<rparr>,
      \<lparr>de = Some ''Hund {m}'', fr = Some ''chien {m}'', cat = Some ''noun'',
       de_gender = Some ''m'', fr_gender = Some ''m'', de_gender_grouped = Some ''m''\<rparr>,
      \<lparr>de = Some ''Kind {n}'', fr = Some ''enfant {m}'', cat = Some ''noun'',
       de_gender = Some ''n'', fr_gender = Some ''m'', de_gender_grouped = Some ''m''\<rparr>,
      \<lparr>de = Some ''Frau {f}'', fr = Some ''femme {f}'', cat = Some ''noun'',
       de_gender = Some ''f'', fr_gender = Some ''f'', de_gender_grouped = Some ''f''\<rparr>]"

definition sample_outcome :: outcome where
  "sample_outcome =
     \<lparr>out_gendered = sample_gendered,
      out_cm = [[1, 0, 0], [0, 1, 0], [1, 1, 0]],
      out_cm2 = [[2, 1], [0, 1]],
      out_ratio = Some (3 / 4),
      out_chi2_table = [[1, 0], [0, 1], [1, 1]]\<rparr>"

section \<open>The matcher and the language of a pattern\<close>

lemma match_re_iff: "(m, rest) \<in> set (match_re r s) \<longleftrightarrow> m \<in> lang r \<and> s = m @ rest"
proof (induction r arbitrary: m rest s)
  case (Seq r1 r2)
  show ?case
  proof
    assume "(m, rest) \<in> set (match_re (Seq r1 r2) s)"
    then obtain m1 rest1 m2 where a: "(m1, rest1) \<in> set (match_re r1 s)"
      and b: "(m2, rest) \<in> set (match_re r2 rest1)" and c: "m = m1 @ m2"
      by auto
    from a b c Seq.IH show "m \<in> lang (Seq r1 r2) \<and> s = m @ rest"
      by auto
  next
    assume "m \<in> lang (Seq r1 r2) \<and> s = m @ rest"
    then obtain u v where u: "u \<in> lang r1" and v: "v \<in> lang r2" and m: "m = u @ v"
      and s: "s = u @ v @ rest"
      by auto
    from u s Seq.IH(1) have a: "(u, v @ rest) \<in> set (match_re r1 s)"
      by simp
    from v Seq.IH(2) have b: "(v, rest) \<in> set (match_re r2 (v @ rest))"
      by simp
    from a b m show "(m, rest) \<in> set (match_re (Seq r1 r2) s)"
      by force
  qed
qed (auto split: list.splits if_splits)

lemma match_re_Nil_iff: "match_re r s = [] \<longleftrightarrow> \<not> (\<exists>m. m \<in> lang r \<and> prefix m s)"
proof -
  have "match_re r s = [] \<longleftrightarrow> \<not> (\<exists>m rest. (m, rest) \<in> set (match_re r s))"
    by (cases "match_re r s") auto
  also have "\<dots> \<longleftrightarrow> \<not> (\<exists>m. m \<in> lang r \<and> prefix m s)"
    by (auto simp: match_re_iff prefix_def)
  finally show ?thesis .
qed

lemma search_None_iff: "search r s = None \<longleftrightarrow> (\<forall>i\<le>length s. match_re r (drop i s) = [])"
proof (induction s)
  case Nil
  show ?case by (auto split: list.splits)
next
  case (Cons x xs)
  show ?case
  proof (cases "match_re r (x # xs)")
    case Nil
    have "(\<forall>i\<le>length (x # xs). match_re r (drop i (x # xs)) = []) \<longleftrightarrow>
          (\<forall>i\<le>length xs. match_re r (drop i xs) = [])"
    proof
      assume a: "\<forall>i\<le>length (x # xs). match_re r (drop i (x # xs)) = []"
      show "\<forall>i\<le>length xs. match_re r (drop i xs) = []"
      proof (intro allI impI)
        fix i assume "i \<le> length xs"
        with a have "match_re r (drop (Suc i) (x # xs)) = []" by (metis Suc_le_mono length_Cons)
        then show "match_re r (drop i xs) = []" by simp
      qed
    next
      assume a: "\<forall>i\<le>length xs. match_re r (drop i xs) = []"
      show "\<forall>i\<le>length (x # xs). match_re r (drop i (x # xs)) = []"
      proof (intro allI impI)
        fix i assume i: "i \<le> length (x # xs)"
        show "match_re r (drop i (x # xs)) = []"
        proof (cases i)
          case 0 with Nil show ?thesis by simp
        next
          case (Suc j) with i a show ?thesis by simp
        qed
      qed
    qed
    with Nil Cons.IH show ?thesis by simp
  next
    case (Cons p ps)
    then have "search r (x # xs) \<noteq> None" by (cases p) simp
    moreover from Cons have "\<not> (\<forall>i\<le>length (x # xs). match_re r (drop i (x # xs)) = [])"
      by (metis drop0 le0 list.distinct(1))
    ultimately show ?thesis by blast
  qed
qed

lemma search_Some:
  "search r s = Some m \<Longrightarrow>
   \<exists>i\<le>length s. (\<forall>j<i. match_re r (drop j s) = []) \<and> (\<exists>rest more. match_re r (drop i s) = (m, rest) # more)"
proof (induction s)
  case Nil
  then show ?case by (auto split: list.splits)
next
  case (Cons x xs)
  show ?case
  proof (cases "match_re r (x # xs)")
    case Nil
    with Cons.prems have "search r xs = Some m" by simp
    from Cons.IH[OF this] obtain i rest more where i: "i \<le> length xs"
      and none: "\<forall>j<i. match_re r (drop j xs) = []"
      and hit: "match_re r (drop i xs) = (m, rest) # more"
      by blast
    have "\<forall>j<Suc i. match_re r (drop j (x # xs)) = []"
    proof (intro allI impI)
      fix j assume "j < Suc i"
      then show "match_re r (drop j (x # xs)) = []"
        using Nil none by (cases j) auto
    qed
    with i hit show ?thesis
      by (intro exI[of _ "Suc i"]) simp
  next
    case (Cons p ps)
    with Cons.prems have "fst p = m" by (cases p) simp
    with Cons show ?thesis
      by (intro exI[of _ 0]) (cases p, simp)
  qed
qed


lemma matches_at_code: "matches_at pat text i \<longleftrightarrow> i \<le> length text \<and> match_re pat (drop i text) \<noteq> []"
  by (simp add: matches_at_def match_re_Nil_iff)

lemma in_lang_Seq_single:
  assumes "\<And>u. u \<in> lang r1 \<longleftrightarrow> (\<exists>c. u = [c] \<and> P c)"
  shows "m \<in> lang (Seq r1 r2) \<longleftrightarrow> (\<exists>c v. m = c # v \<and> P c \<and> v \<in> lang r2)"
proof
  assume "m \<in> lang (Seq r1 r2)"
  then obtain u v where "u \<in> lang r1" "v \<in> lang r2" "m = u @ v" by auto
  with assms show "\<exists>c v. m = c # v \<and> P c \<and> v \<in> lang r2" by auto
next
  assume "\<exists>c v. m = c # v \<and> P c \<and> v \<in> lang r2"
  then obtain c v where m: "m = [c] @ v" and c: "P c" and v: "v \<in> lang r2" by auto
  from c assms have "[c] \<in> lang r1" by blast
  with v m show "m \<in> lang (Seq r1 r2)" unfolding lang.simps by blast
qed

lemma in_lang_Lit_Seq: "m \<in> lang (Seq (Lit c) r) \<longleftrightarrow> (\<exists>v. m = c # v \<and> v \<in> lang r)"
  by (subst in_lang_Seq_single[where P = "\<lambda>x. x = c"]) auto

lemma in_lang_Class_Seq: "m \<in> lang (Seq (Class cs) r) \<longleftrightarrow> (\<exists>g v. m = g # v \<and> g \<in> set cs \<and> v \<in> lang r)"
  by (subst in_lang_Seq_single[where P = "\<lambda>x. x \<in> set cs"]) auto

lemma in_lang_Dot_Seq: "m \<in> lang (Seq Dot r) \<longleftrightarrow> (\<exists>c v. m = c # v \<and> c \<noteq> CHR 0x0A \<and> v \<in> lang r)"
  by (subst in_lang_Seq_single[where P = "\<lambda>x. x \<noteq> CHR 0x0A"]) auto

lemma in_lang_short_tag:
  "m \<in> lang (Seq (Lit CHR ''{'') (Seq (Class gs) (Lit CHR ''}''))) \<longleftrightarrow>
     (\<exists>g\<in>set gs. m = [CHR ''{'', g, CHR ''}''])"
  unfolding in_lang_Lit_Seq in_lang_Class_Seq by auto

lemma in_lang_plural_tag:
  "m \<in> lang (Seq (Lit CHR ''{'') (Seq (Class gs) (Seq Dot
          (Seq (Lit CHR ''p'') (Seq (Lit CHR ''l'') (Lit CHR ''}'')))))) \<longleftrightarrow>
     (\<exists>g\<in>set gs. \<exists>c. c \<noteq> CHR 0x0A \<and> m = [CHR ''{'', g, c, CHR ''p'', CHR ''l'', CHR ''}''])"
  unfolding in_lang_Lit_Seq in_lang_Class_Seq in_lang_Dot_Seq by auto

lemma in_lang_gender_pattern:
  "m \<in> lang (gender_pattern gs) \<longleftrightarrow>
     (\<exists>g\<in>set gs. m = [CHR ''{'', g, CHR ''}''] \<or>
        (\<exists>c. c \<noteq> CHR 0x0A \<and> m = [CHR ''{'', g, c, CHR ''p'', CHR ''l'', CHR ''}'']))"
  unfolding gender_pattern_def lang.simps(5,6) Un_iff in_lang_short_tag in_lang_plural_tag
  by blast

lemma tag_shape:
  assumes "m \<in> lang (gender_pattern gs)"
  shows "1 < length m" and "m ! 1 \<in> set gs"
  using assms by (auto simp: in_lang_gender_pattern)

lemma Extractor_search:
  "Extractor (gender_pattern gs) (Some text) =
     (case search (gender_pattern gs) text of None \<Rightarrow> Inr None | Some m \<Rightarrow> Inr (Some [m ! 1]))"
proof (cases "search (gender_pattern gs) text")
  case None
  then show ?thesis by (simp add: Extractor_def str_extract_def)
next
  case (Some m)
  from search_Some[OF Some] obtain i rest more
    where "match_re (gender_pattern gs) (drop i text) = (m, rest) # more"
    by blast
  then have "(m, rest) \<in> set (match_re (gender_pattern gs) (drop i text))" by simp
  then have "m \<in> lang (gender_pattern gs)" by (simp add: match_re_iff)
  then have "1 < length m" by (rule tag_shape)
  with Some show ?thesis
    by (simp add: Extractor_def str_extract_def strip_braces_def subscript_def)
qed

lemma Extractor_None_iff:
  "Extractor (gender_pattern gs) (Some text) = Inr None \<longleftrightarrow> (\<forall>i. \<not> matches_at (gender_pattern gs) text i)"
proof -
  have "Extractor (gender_pattern gs) (Some text) = Inr None \<longleftrightarrow> search (gender_pattern gs) text = None"
    by (simp add: Extractor_search split: option.splits)
  also have "\<dots> \<longleftrightarrow> (\<forall>i. \<not> matches_at (gender_pattern gs) text i)"
    by (auto simp: search_None_iff matches_at_code)
  finally show ?thesis .
qed

lemma Extractor_leftmost:
  assumes hit: "matches_at (gender_pattern gs) text i"
    and first: "\<forall>j<i. \<not> matches_at (gender_pattern gs) text j"
  shows "Extractor (gender_pattern gs) (Some text) = Inr (Some [text ! Suc i]) \<and> text ! Suc i \<in> set gs"
proof -
  let ?p = "gender_pattern gs"
  from hit have "search ?p text \<noteq> None"
    by (auto simp: search_None_iff matches_at_code)
  then obtain m where m: "search ?p text = Some m" by blast
  from search_Some[OF m] obtain k rest more where k: "k \<le> length text"
    and none: "\<forall>j<k. match_re ?p (drop j text) = []"
    and at: "match_re ?p (drop k text) = (m, rest) # more"
    by blast
  have "k = i"
  proof (rule ccontr)
    assume "k \<noteq> i"
    then consider "k < i" | "i < k" by linarith
    then show False
    proof cases
      case 1
      with first k at show False by (simp add: matches_at_code)
    next
      case 2
      with none hit show False by (simp add: matches_at_code)
    qed
  qed
  from at have "(m, rest) \<in> set (match_re ?p (drop k text))" by simp
  then have inl: "m \<in> lang ?p" and split: "drop k text = m @ rest"
    by (simp_all add: match_re_iff)
  from inl have len: "1 < length m" and cls: "m ! 1 \<in> set gs"
    by (rule tag_shape)+
  have "text ! Suc i = drop k text ! 1"
    using \<open>k = i\<close> k len split
    by (metis One_nat_def add.commute add_lessD1 drop_eq_Nil2 leD length_append less_imp_le_nat list.size(3) not_less_zero nth_drop plus_1_eq_Suc)
  also have "\<dots> = m ! 1" using len split by (simp add: nth_append)
  finally have "text ! Suc i = m ! 1" .
  with m cls show ?thesis by (simp add: Extractor_search)
qed

section \<open>Extractor: a label exactly when the pattern matches\<close>

text \<open>
  Claim C2. For every text, the Extractor returns a label if and only if the fixed
  pattern (the German or the French one) matches somewhere in the text, and it returns
  \<^verbatim>\<open>NaN\<close> otherwise; when the pattern matches, the label is the one character that
  follows the opening brace of the leftmost match, that is the gender letter of the
  captured tag. What the pattern matches is a brace, one gender letter (of \<open>m, f, n\<close> for
  German, of \<open>m, f\<close> for French) and a closing brace, or a brace, one gender letter, one
  character that is not a line feed (the dot of the pattern), \<^verbatim>\<open>pl\<close> and a closing brace.
  For \<^verbatim>\<open>"Haus {n}"\<close> the label is \<^verbatim>\<open>n\<close>, for \<^verbatim>\<open>"maison {f}"\<close> it is \<^verbatim>\<open>f\<close>.
\<close>

theorem Extractor_label_iff_match:
  assumes "pat = de_pattern \<or> pat = fr_pattern"
  shows "((\<exists>l. Extractor pat (Some text) = Inr (Some l)) \<longleftrightarrow> (\<exists>i. matches_at pat text i))
       \<and> (Extractor pat (Some text) = Inr None \<longleftrightarrow> \<not> (\<exists>i. matches_at pat text i))
       \<and> (matches_at pat text i \<and> (\<forall>j<i. \<not> matches_at pat text j) \<longrightarrow>
            Extractor pat (Some text) = Inr (Some [text ! Suc i]))
       \<and> (m \<in> lang de_pattern \<longleftrightarrow>
            (\<exists>g\<in>set ''mfn''. m = [CHR ''{'', g, CHR ''}''] \<or>
               (\<exists>c. c \<noteq> CHR 0x0A \<and> m = [CHR ''{'', g, c, CHR ''p'', CHR ''l'', CHR ''}''])))
       \<and> (m \<in> lang fr_pattern \<longleftrightarrow>
            (\<exists>g\<in>set ''mf''. m = [CHR ''{'', g, CHR ''}''] \<or>
               (\<exists>c. c \<noteq> CHR 0x0A \<and> m = [CHR ''{'', g, c, CHR ''p'', CHR ''l'', CHR ''}''])))"
proof -
  from assms obtain gs where pat: "pat = gender_pattern gs"
    by (auto simp: de_pattern_def fr_pattern_def)
  have none: "Extractor pat (Some text) = Inr None \<longleftrightarrow> \<not> (\<exists>i. matches_at pat text i)"
    unfolding pat by (simp add: Extractor_None_iff)
  have cases: "Extractor pat (Some text) = Inr None \<or> (\<exists>l. Extractor pat (Some text) = Inr (Some l))"
    unfolding pat by (simp add: Extractor_search split: option.splits)
  have some: "(\<exists>l. Extractor pat (Some text) = Inr (Some l)) \<longleftrightarrow> (\<exists>i. matches_at pat text i)"
    using none cases by auto
  have left: "matches_at pat text i \<and> (\<forall>j<i. \<not> matches_at pat text j) \<longrightarrow>
            Extractor pat (Some text) = Inr (Some [text ! Suc i])"
    unfolding pat using Extractor_leftmost by blast
  have de: "m \<in> lang de_pattern \<longleftrightarrow>
            (\<exists>g\<in>set ''mfn''. m = [CHR ''{'', g, CHR ''}''] \<or>
               (\<exists>c. c \<noteq> CHR 0x0A \<and> m = [CHR ''{'', g, c, CHR ''p'', CHR ''l'', CHR ''}'']))"
    unfolding de_pattern_def by (rule in_lang_gender_pattern)
  have fr: "m \<in> lang fr_pattern \<longleftrightarrow>
            (\<exists>g\<in>set ''mf''. m = [CHR ''{'', g, CHR ''}''] \<or>
               (\<exists>c. c \<noteq> CHR 0x0A \<and> m = [CHR ''{'', g, c, CHR ''p'', CHR ''l'', CHR ''}'']))"
    unfolding fr_pattern_def by (rule in_lang_gender_pattern)
  from some none left de fr show ?thesis by blast
qed

theorem Extractor_label_iff_match_witness:
  "(de_pattern = de_pattern \<or> de_pattern = fr_pattern)
   \<and> matches_at de_pattern ''Haus {n}'' 5
   \<and> \<not> list_ex (matches_at de_pattern ''Haus {n}'') [0..<5]
   \<and> Extractor de_pattern (Some ''Haus {n}'') = Inr (Some ''n'')
   \<and> (fr_pattern = de_pattern \<or> fr_pattern = fr_pattern)
   \<and> matches_at fr_pattern ''maison {f}'' 7
   \<and> \<not> list_ex (matches_at fr_pattern ''maison {f}'') [0..<7]
   \<and> Extractor fr_pattern (Some ''maison {f}'') = Inr (Some ''f'')"
proof -
  have de: "matches_at de_pattern ''Haus {n}'' 5 \<and> (\<forall>j<5. \<not> matches_at de_pattern ''Haus {n}'' j)"
    by (simp add: matches_at_code de_pattern_def gender_pattern_def numeral_eq_Suc less_Suc_eq)
  have fr: "matches_at fr_pattern ''maison {f}'' 7 \<and> (\<forall>j<7. \<not> matches_at fr_pattern ''maison {f}'' j)"
    by (simp add: matches_at_code fr_pattern_def gender_pattern_def numeral_eq_Suc less_Suc_eq)
  have a: "de_pattern = de_pattern \<or> de_pattern = fr_pattern" by simp
  have b: "fr_pattern = de_pattern \<or> fr_pattern = fr_pattern" by simp
  from Extractor_label_iff_match[OF a, of "''Haus {n}''" 5]
  have "matches_at de_pattern ''Haus {n}'' 5 \<and> (\<forall>j<5. \<not> matches_at de_pattern ''Haus {n}'' j)
      \<longrightarrow> Extractor de_pattern (Some ''Haus {n}'') = Inr (Some [''Haus {n}'' ! Suc 5])"
    by blast
  with de have 1: "Extractor de_pattern (Some ''Haus {n}'') = Inr (Some ''n'')" by simp
  from Extractor_label_iff_match[OF b, of "''maison {f}''" 7]
  have "matches_at fr_pattern ''maison {f}'' 7 \<and> (\<forall>j<7. \<not> matches_at fr_pattern ''maison {f}'' j)
      \<longrightarrow> Extractor fr_pattern (Some ''maison {f}'') = Inr (Some [''maison {f}'' ! Suc 7])"
    by blast
  with fr have 2: "Extractor fr_pattern (Some ''maison {f}'') = Inr (Some ''f'')" by simp
  from de have 3: "\<not> list_ex (matches_at de_pattern ''Haus {n}'') [0..<5]"
    unfolding list_ex_iff by auto
  from fr have 4: "\<not> list_ex (matches_at fr_pattern ''maison {f}'') [0..<7]"
    unfolding list_ex_iff by auto
  from a b de fr 1 2 3 4 show ?thesis by blast
qed

section \<open>Grouper\<close>

lemma dom_grouping: "dom grouping = {''f'', ''m'', ''n''}"
  by (auto simp: grouping_def split: if_splits)

lemma Extractor_label_in_class:
  assumes "Extractor (gender_pattern gs) c = Inr (Some l)"
  shows "\<exists>g\<in>set gs. l = [g]"
proof (cases c)
  case None
  with assms show ?thesis by (simp add: Extractor_def str_extract_def)
next
  case (Some s)
  with assms obtain m where m: "search (gender_pattern gs) s = Some m" and l: "l = [m ! 1]"
    by (auto simp: Extractor_search split: option.splits)
  from search_Some[OF m] obtain i rest more
    where "match_re (gender_pattern gs) (drop i s) = (m, rest) # more"
    by blast
  then have "(m, rest) \<in> set (match_re (gender_pattern gs) (drop i s))" by simp
  then have "m \<in> lang (gender_pattern gs)" by (simp add: match_re_iff)
  then have "m ! 1 \<in> set gs" by (rule tag_shape)
  with l show ?thesis by blast
qed

text \<open>
  Claim C8. The Grouper is a total function on the gender alphabet \<open>{f, m, n}\<close>: every
  label of the alphabet is mapped to a label of the alphabet, without an error and
  without a missing value. It is idempotent on values: grouping the grouped label gives
  the grouped label again.
\<close>

theorem Grouper_idempotent:
  assumes "x \<in> {''f'', ''m'', ''n''}"
  shows "\<exists>y. Grouper (Some x) = Inr (Some y) \<and> y \<in> {''f'', ''m'', ''n''}
            \<and> Grouper (Some y) = Inr (Some y)"
  using assms by (auto simp: Grouper_def grouping_def)

theorem Grouper_idempotent_witness:
  "''n'' \<in> {''f'', ''m'', ''n''} \<and> Grouper (Some ''n'') = Inr (Some ''m'')
   \<and> Grouper (Some ''m'') = Inr (Some ''m'')"
proof -
  have d: "''n'' \<in> {''f'', ''m'', ''n''}" by simp
  from Grouper_idempotent[OF d] show ?thesis
    using d by (auto simp: Grouper_def grouping_def)
qed

text \<open>
  Claim C1, as stated: a label outside \<open>{f, m, n}\<close> makes the Grouper raise. It does
  not: \<^verbatim>\<open>Series.map\<close> with a dictionary gives \<^verbatim>\<open>NaN\<close> for a value that is not a
  key. The label \<^verbatim>\<open>x\<close> is outside the domain, and the Grouper returns the missing
  value for it.
\<close>

theorem Grouper_unmapped_counterexample:
  "''x'' \<notin> dom grouping \<and> Grouper (Some ''x'') = Inr None"
  by (simp add: dom_grouping Grouper_def grouping_def)

text \<open>
  Claim C1, amended. The mapping has the domain \<open>{f, m, n}\<close> and gives a label for
  every label of that domain; for a label outside the domain the Grouper raises nothing
  and yields the missing value \<^verbatim>\<open>NaN\<close>. The mapping is total over the source
  alphabet: every label that the Extractor produces for the German field is in the
  domain.
\<close>

theorem Grouper_total_on_alphabet:
  "dom grouping = {''f'', ''m'', ''n''}
   \<and> (l \<in> dom grouping \<longrightarrow> (\<exists>g. Grouper (Some l) = Inr (Some g)))
   \<and> (l \<notin> dom grouping \<longrightarrow> Grouper (Some l) = Inr None)
   \<and> (Extractor de_pattern c = Inr (Some l) \<longrightarrow> l \<in> dom grouping)"
proof -
  have "Extractor de_pattern c = Inr (Some l) \<longrightarrow> l \<in> dom grouping"
    using Extractor_label_in_class[of "''mfn''" c l]
    by (auto simp: de_pattern_def dom_grouping)
  moreover have "dom grouping = {''f'', ''m'', ''n''}" by (rule dom_grouping)
  moreover have "l \<in> dom grouping \<longrightarrow> (\<exists>g. Grouper (Some l) = Inr (Some g))"
    by (auto simp: Grouper_def)
  moreover have "l \<notin> dom grouping \<longrightarrow> Grouper (Some l) = Inr None"
    by (auto simp: Grouper_def)
  ultimately show ?thesis by blast
qed

theorem Grouper_total_on_alphabet_witness:
  "''n'' \<in> dom grouping \<and> Grouper (Some ''n'') = Inr (Some ''m'')
   \<and> ''x'' \<notin> dom grouping \<and> Grouper (Some ''x'') = Inr None
   \<and> Extractor de_pattern (Some ''Haus {n}'') = Inr (Some ''n'')"
proof -
  have e: "Extractor de_pattern (Some ''Haus {n}'') = Inr (Some ''n'')"
    by (simp add: Extractor_def str_extract_def de_pattern_def gender_pattern_def
        strip_braces_def subscript_def)
  from Grouper_total_on_alphabet[of "''n''" "Some ''Haus {n}''"] e
  have n: "''n'' \<in> dom grouping" by blast
  from Grouper_total_on_alphabet[of "''x''" None]
  have x: "''x'' \<notin> dom grouping \<and> Grouper (Some ''x'') = Inr None" by auto
  have "Grouper (Some ''n'') = Inr (Some ''m'')" by (simp add: Grouper_def grouping_def)
  with e n x show ?thesis by blast
qed

section \<open>Filter\<close>

lemma boolean_index_filter: "boolean_index rows (map f rows) = filter f rows"
  by (induction rows) (auto simp: boolean_index_def)

text \<open>
  Claim C7. For every table and every predicate \<open>P\<close> on the category, the Filter
  returns exactly the rows whose category satisfies \<open>P\<close>, each as often as it occurs
  and in the order of the input: the result is the input with the other rows left out.
  The cell of the notebook, with the predicate "is \<^verbatim>\<open>'noun'\<close>", writes the variable
  \<^verbatim>\<open>nouns\<close> and leaves \<^verbatim>\<open>defr\<close> as it was.
\<close>

theorem Filter_exact_subsequence:
  "Filter P rows = filter (\<lambda>r. P (cat r)) rows
   \<and> subseq (Filter P rows) rows
   \<and> set (Filter P rows) = {r \<in> set rows. P (cat r)}
   \<and> defr (restrict_to_nouns w) = defr w
   \<and> nouns (restrict_to_nouns w) = filter (\<lambda>r. cat r = Some ''noun'') (defr w)"
proof -
  have eq: "Filter P rows = filter (\<lambda>r. P (cat r)) rows" for P rows
    unfolding Filter_def by (rule boolean_index_filter)
  have "nouns (restrict_to_nouns w) = filter (\<lambda>r. cat r = Some ''noun'') (defr w)"
    by (simp add: restrict_to_nouns_def eq is_noun_def)
  moreover have "defr (restrict_to_nouns w) = defr w"
    by (simp add: restrict_to_nouns_def)
  ultimately show ?thesis
    by (simp add: eq)
qed

section \<open>Extractor: which rows are retained\<close>

lemma series_map_pointwise:
  assumes "\<And>x. x \<in> set xs \<Longrightarrow> f x = Inr (g x)"
  shows "series_map f xs = Inr (map g xs)"
  using assms by (induction xs) auto

lemma map2_same: "map2 f xs (map h xs) = map (\<lambda>x. f x (h x)) xs"
  by (induction xs) auto

lemma str_extract_tag:
  assumes "str_extract (gender_pattern gs) c = Some m"
  shows "1 < length m" and "m ! 1 \<in> set gs"
proof -
  from assms obtain s where "c = Some s" and m: "search (gender_pattern gs) s = Some m"
    by (auto simp: str_extract_def split: option.splits)
  from search_Some[OF m] obtain i rest more
    where "match_re (gender_pattern gs) (drop i s) = (m, rest) # more"
    by blast
  then have "(m, rest) \<in> set (match_re (gender_pattern gs) (drop i s))" by simp
  then have "m \<in> lang (gender_pattern gs)" by (simp add: match_re_iff)
  then show "1 < length m" and "m ! 1 \<in> set gs" by (rule tag_shape)+
qed



lemma strip_braces_tag:
  assumes "c = str_extract (gender_pattern gs) d" and "c \<noteq> None"
  shows "strip_braces c = Inr (Some [the c ! 1])"
proof -
  from assms obtain m where m: "str_extract (gender_pattern gs) d = Some m" and c: "c = Some m"
    by auto
  from str_extract_tag(1)[OF m] c show ?thesis
    by (simp add: strip_braces_def subscript_def)
qed

lemma strip_tags_eq:
  "strip_tags (map extract_genders ns) = Inr (map finish (dropna (map extract_genders ns)))"
proof -
  let ?kept = "dropna (map extract_genders ns)"
  let ?g = "\<lambda>c::cell. Some [the c ! 1]"
  have de: "strip_braces (de_gender r) = Inr (?g (de_gender r))" if "r \<in> set ?kept" for r
  proof -
    from that obtain e where "r = extract_genders e" and "\<not> has_nan r"
      by (auto simp: dropna_def)
    then have "de_gender r = str_extract (gender_pattern ''mfn'') (de e)" and "de_gender r \<noteq> None"
      by (auto simp: extract_genders_def has_nan_def de_pattern_def)
    then show ?thesis by (rule strip_braces_tag)
  qed
  have fr: "strip_braces (fr_gender r) = Inr (?g (fr_gender r))" if "r \<in> set ?kept" for r
  proof -
    from that obtain e where "r = extract_genders e" and "\<not> has_nan r"
      by (auto simp: dropna_def)
    then have "fr_gender r = str_extract (gender_pattern ''mf'') (fr e)" and "fr_gender r \<noteq> None"
      by (auto simp: extract_genders_def has_nan_def fr_pattern_def)
    then show ?thesis by (rule strip_braces_tag)
  qed
  have 1: "series_map strip_braces (map de_gender ?kept) = Inr (map ?g (map de_gender ?kept))"
    by (rule series_map_pointwise) (auto simp: de)
  let ?kept1 = "map (\<lambda>r. r\<lparr>de_gender := ?g (de_gender r)\<rparr>) ?kept"
  have k1: "map2 (\<lambda>r v. r\<lparr>de_gender := v\<rparr>) ?kept (map ?g (map de_gender ?kept)) = ?kept1"
    by (simp add: comp_def map2_same)
  have fr1: "map fr_gender ?kept1 = map fr_gender ?kept"
    by simp
  have 2: "series_map strip_braces (map fr_gender ?kept1) = Inr (map ?g (map fr_gender ?kept))"
    unfolding fr1 by (rule series_map_pointwise) (auto simp: fr)
  have k2: "map2 (\<lambda>r v. r\<lparr>fr_gender := v\<rparr>) ?kept1 (map ?g (map fr_gender ?kept)) = map finish ?kept"
  proof -
    have "map ?g (map fr_gender ?kept) = map (\<lambda>r. ?g (fr_gender r)) ?kept1"
      by (simp add: comp_def)
    then have "map2 (\<lambda>r v. r\<lparr>fr_gender := v\<rparr>) ?kept1 (map ?g (map fr_gender ?kept))
        = map (\<lambda>r. r\<lparr>fr_gender := ?g (fr_gender r)\<rparr>) ?kept1"
      by (simp only: map2_same)
    also have "\<dots> = map finish ?kept"
      by (simp add: finish_def comp_def)
    finally show ?thesis .
  qed
  show ?thesis
    unfolding strip_tags_def Let_def 1 sum.case k1 2 k2 ..
qed

lemma nouns_gendered_eq:
  assumes "de_object dt" and "fr_object dt"
  shows "nouns_gendered dt ns = Inr (map finish (dropna (map extract_genders ns)))"
  using assms by (simp add: nouns_gendered_def str_accessor_def strip_tags_eq)

lemma nouns_gendered_error:
  assumes "\<not> (de_object dt \<and> fr_object dt)"
  shows "nouns_gendered dt ns = Inl AttributeError"
  using assms by (auto simp: nouns_gendered_def str_accessor_def)









section \<open>Cross-tabulator\<close>

lemma label_to_ind_Some:
  assumes "map_of (rev (zip labels [0..<length labels])) x = Some i"
  shows "i < length labels \<and> labels ! i = x"
proof -
  from assms have "(x, i) \<in> set (zip labels [0..<length labels])"
    by (auto dest: map_of_SomeD)
  then show ?thesis
    by (auto simp: in_set_zip)
qed

lemma keys_of_enumerate: "fst ` set (rev (zip labels [0..<length labels])) = set labels"
proof -
  have "map fst (zip labels [0..<length labels]) = labels" by simp
  then have "set (map fst (zip labels [0..<length labels])) = set labels" by simp
  then show ?thesis by (simp only: set_map set_rev)
qed

lemma label_to_ind_known:
  assumes "x \<in> set labels"
  shows "label_to_ind labels x < length labels \<and> labels ! label_to_ind labels x = x"
proof -
  from assms have "x \<in> fst ` set (rev (zip labels [0..<length labels]))"
    by (simp only: keys_of_enumerate)
  then obtain i where "map_of (rev (zip labels [0..<length labels])) x = Some i"
    by (metis map_of_eq_None_iff not_Some_eq)
  with label_to_ind_Some[OF this] show ?thesis
    by (simp add: label_to_ind_def)
qed

lemma label_to_ind_unknown:
  assumes "x \<notin> set labels"
  shows "label_to_ind labels x = length labels + 1"
proof -
  from assms have "x \<notin> fst ` set (rev (zip labels [0..<length labels]))"
    by (simp only: keys_of_enumerate not_False_eq_True)
  then have "map_of (rev (zip labels [0..<length labels])) x = None"
    by (simp only: map_of_eq_None_iff not_False_eq_True)
  then show ?thesis by (simp add: label_to_ind_def)
qed

lemma sum_list_upt_indicator:
  "sum_list (map (\<lambda>j. if a = j then 1 else 0) [0..<n]) = (if a < n then 1 else (0::nat))"
  by (induction n) auto

lemma sum_list_upt_zero: "sum_list (map (\<lambda>j. 0::nat) [0..<n]) = 0"
  by (induction n) auto

lemma row_total:
  "sum_list (map (\<lambda>j. count_list es (i, j)) [0..<n]) = length (filter (\<lambda>(a, b). a = i \<and> b < n) es)"
proof (induction es)
  case Nil
  show ?case by (simp add: sum_list_upt_zero)
next
  case (Cons e es)
  obtain a b where e: "e = (a, b)" by (cases e)
  have "sum_list (map (\<lambda>j. count_list (e # es) (i, j)) [0..<n])
      = sum_list (map (\<lambda>j. count_list es (i, j) + (if a = i \<and> b = j then 1 else 0)) [0..<n])"
    by (rule arg_cong[where f = sum_list], rule map_cong) (auto simp: e)
  also have "\<dots> = sum_list (map (\<lambda>j. count_list es (i, j)) [0..<n])
      + sum_list (map (\<lambda>j. if a = i \<and> b = j then 1 else 0) [0..<n])"
    by (simp add: sum_list_addf)
  also have "sum_list (map (\<lambda>j. if a = i \<and> b = j then 1 else 0) [0..<n])
      = (if a = i \<and> b < n then 1 else (0::nat))"
    using sum_list_upt_indicator[of b n] by (auto simp: sum_list_upt_zero)
  finally show ?case using Cons.IH by (simp add: e)
qed

lemma cells_total_coo:
  "cells_total (coo_to_array n es) = length (filter (\<lambda>(a, b). a < n \<and> b < n) es)"
proof -
  have "cells_total (coo_to_array n es)
      = sum_list (map (\<lambda>i. length (filter (\<lambda>(a, b). a = i \<and> b < n) es)) [0..<n])"
    by (simp add: cells_total_def coo_to_array_def comp_def row_total)
  also have "\<dots> = length (filter (\<lambda>(a, b). a < n \<and> b < n) es)"
  proof (induction es)
    case Nil
    show ?case by (simp add: sum_list_upt_zero)
  next
    case (Cons e es)
    obtain a b where e: "e = (a, b)" by (cases e)
    have "sum_list (map (\<lambda>i. length (filter (\<lambda>(a, b). a = i \<and> b < n) (e # es))) [0..<n])
        = sum_list (map (\<lambda>i. length (filter (\<lambda>(a, b). a = i \<and> b < n) es)
              + (if a = i \<and> b < n then 1 else 0)) [0..<n])"
      by (rule arg_cong[where f = sum_list], rule map_cong) (auto simp: e)
    also have "\<dots> = sum_list (map (\<lambda>i. length (filter (\<lambda>(a, b). a = i \<and> b < n) es)) [0..<n])
        + sum_list (map (\<lambda>i. if a = i \<and> b < n then 1 else 0) [0..<n])"
      by (simp add: sum_list_addf)
    also have "sum_list (map (\<lambda>i. if a = i \<and> b < n then 1 else 0) [0..<n])
        = (if a < n \<and> b < n then 1 else (0::nat))"
      using sum_list_upt_indicator[of a n] by (auto simp: sum_list_upt_zero)
    finally show ?case using Cons.IH by (simp add: e)
  qed
  finally show ?thesis .
qed

lemma diagonal_coo: "diagonal (coo_to_array n es) = map (\<lambda>i. count_list es (i, i)) [0..<n]"
proof -
  have "filter (\<lambda>i. i < length (coo_to_array n es ! i)) [0..<length (coo_to_array n es)] = [0..<n]"
    by (auto simp: coo_to_array_def intro!: filter_True)
  then show ?thesis
    by (simp add: diagonal_def) (simp add: coo_to_array_def)
qed

lemma diagonal_total_coo:
  "sum_list (diagonal (coo_to_array n es)) = length (filter (\<lambda>(a, b). a = b \<and> a < n) es)"
  unfolding diagonal_coo
proof (induction es)
  case Nil
  show ?case by (simp add: sum_list_upt_zero)
next
  case (Cons e es)
  obtain a b where e: "e = (a, b)" by (cases e)
  have "sum_list (map (\<lambda>i. count_list (e # es) (i, i)) [0..<n])
      = sum_list (map (\<lambda>i. count_list es (i, i) + (if a = b \<and> a = i then 1 else 0)) [0..<n])"
    by (rule arg_cong[where f = sum_list], rule map_cong) (auto simp: e)
  also have "\<dots> = sum_list (map (\<lambda>i. count_list es (i, i)) [0..<n])
      + sum_list (map (\<lambda>i. if a = b \<and> a = i then 1 else 0) [0..<n])"
    by (simp add: sum_list_addf)
  also have "sum_list (map (\<lambda>i. if a = b \<and> a = i then 1 else 0) [0..<n])
      = (if a = b \<and> a < n then 1 else (0::nat))"
    using sum_list_upt_indicator[of a n] by (auto simp: sum_list_upt_zero)
  finally show ?case using Cons.IH by (simp add: e)
qed


lemma coo_to_array_Nil: "coo_to_array n [] = replicate n (replicate n 0)"
  by (simp add: coo_to_array_def map_replicate_const)

lemma check_targets_labels:
  "length ys = length ps \<Longrightarrow> check_targets (map Some ys) (map Some ps) = Inr (ys, ps)"
  by (auto simp: check_targets_def comp_def)

lemma in_zip_maps:
  assumes "e \<in> set (zip (map f ys) (map g ps))"
  shows "\<exists>y p. e = (f y, g p) \<and> y \<in> set ys \<and> p \<in> set ps"
proof -
  obtain a b where e: "e = (a, b)" by (cases e)
  with assms have "a \<in> set (map f ys)" and "b \<in> set (map g ps)"
    by (auto dest: set_zip_leftD set_zip_rightD)
  with e show ?thesis by auto
qed

lemma confusion_matrix_known:
  assumes len: "length ys = length ps" and ys: "set ys \<subseteq> set labels" and ps: "set ps \<subseteq> set labels"
    and labels: "labels \<noteq> []"
  shows "confusion_matrix (map Some ys) (map Some ps) labels =
           Inr (coo_to_array (length labels)
                  (zip (map (label_to_ind labels) ys) (map (label_to_ind labels) ps)))"
proof (cases "ys = []")
  case True
  with len labels show ?thesis
    by (simp add: confusion_matrix_def check_targets_def coo_to_array_Nil Let_def)
next
  case False
  let ?n = "length labels"
  let ?es = "zip (map (label_to_ind labels) ys) (map (label_to_ind labels) ps)"
  from False obtain y0 where "y0 \<in> set ys" by (cases ys) auto
  with ys have "y0 \<in> set ys \<inter> set labels" by blast
  then have meet: "set ys \<inter> set labels \<noteq> {}" by blast
  have "\<forall>e\<in>set ?es. case e of (t, p) \<Rightarrow> p < ?n \<and> t < ?n"
  proof
    fix e assume "e \<in> set ?es"
    then obtain y p where e: "e = (label_to_ind labels y, label_to_ind labels p)"
      and "y \<in> set ys" and "p \<in> set ps"
      using in_zip_maps by blast
    with ys ps have "y \<in> set labels" and "p \<in> set labels" by blast+
    then have "label_to_ind labels y < ?n" and "label_to_ind labels p < ?n"
      by (simp_all add: label_to_ind_known)
    with e show "case e of (t, p) \<Rightarrow> p < ?n \<and> t < ?n" by simp
  qed
  then have keep: "filter (\<lambda>(t, p). p < ?n \<and> t < ?n) ?es = ?es"
    by (simp only: filter_id_conv)
  from len have ct: "check_targets (map Some ys) (map Some ps) = Inr (ys, ps)"
    by (rule check_targets_labels)
  from labels have n: "?n \<noteq> 0" by simp
  show ?thesis
    unfolding confusion_matrix_def ct sum.case prod.case Let_def keep
    using False meet n by (simp only: if_False)
qed

lemma known_entries_total:
  assumes "set ys \<subseteq> set labels" and "set ps \<subseteq> set labels"
  shows "length (filter (\<lambda>(a, b). a < length labels \<and> b < length labels)
           (zip (map (label_to_ind labels) ys) (map (label_to_ind labels) ps)))
         = length (zip ys ps)"
proof -
  have "filter (\<lambda>(a, b). a < length labels \<and> b < length labels)
           (zip (map (label_to_ind labels) ys) (map (label_to_ind labels) ps))
      = zip (map (label_to_ind labels) ys) (map (label_to_ind labels) ps)"
    unfolding filter_id_conv
  proof
    fix e assume "e \<in> set (zip (map (label_to_ind labels) ys) (map (label_to_ind labels) ps))"
    then obtain y p where e: "e = (label_to_ind labels y, label_to_ind labels p)"
      and "y \<in> set ys" and "p \<in> set ps"
      using in_zip_maps by blast
    with assms have "y \<in> set labels" and "p \<in> set labels" by blast+
    then have "label_to_ind labels y < length labels" and "label_to_ind labels p < length labels"
      by (simp_all add: label_to_ind_known)
    with e show "case e of (a, b) \<Rightarrow> a < length labels \<and> b < length labels" by simp
  qed
  then show ?thesis by simp
qed

lemma known_entries_diagonal:
  assumes "set ys \<subseteq> set labels" and "set ps \<subseteq> set labels"
  shows "length (filter (\<lambda>(a, b). a = b \<and> a < length labels)
           (zip (map (label_to_ind labels) ys) (map (label_to_ind labels) ps)))
         = length (filter (\<lambda>(y, p). y = p) (zip ys ps))"
  using assms
proof (induction ys arbitrary: ps)
  case Nil
  show ?case by simp
next
  case (Cons y ys)
  show ?case
  proof (cases ps)
    case Nil
    then show ?thesis by simp
  next
    case (Cons p ps')
    with Cons.prems have y: "y \<in> set labels" and p: "p \<in> set labels"
      and rest: "set ys \<subseteq> set labels" "set ps' \<subseteq> set labels"
      by auto
    from label_to_ind_known[OF y] label_to_ind_known[OF p]
    have inj: "label_to_ind labels y = label_to_ind labels p \<longleftrightarrow> y = p"
      and lt: "label_to_ind labels y < length labels"
      by metis+
    show ?thesis
      unfolding Cons using Cons.IH[OF rest] inj lt by simp
  qed
qed

text \<open>
  Claim C5, as stated: for any two sequences of labels of one length, the cells sum to
  the number of pairs. The Cross-tabulator removes every pair in which a label is not in
  the declared label list, so the sum can be smaller. With the labels \<open>[m, f]\<close>, the
  German sequence \<open>[n, m]\<close> and the French sequence \<open>[m, m]\<close>, the table is
  \<open>[[1, 0], [0, 0]]\<close>: two pairs, and a sum of one.
\<close>

theorem crosstab_unknown_label_counterexample:
  "length [''n'', ''m''] = length [''m'', ''m'']
   \<and> confusion_matrix [Some ''n'', Some ''m''] [Some ''m'', Some ''m''] [''m'', ''f'']
       = Inr [[1, 0], [0, 0]]
   \<and> cells_total [[1, 0], [0, 0]] \<noteq> length [''n'', ''m'']"
  by code_simp

lemma label_to_ind_lt_iff: "label_to_ind labels x < length labels \<longleftrightarrow> x \<in> set labels"
proof (cases "x \<in> set labels")
  case True
  then show ?thesis by (simp add: label_to_ind_known)
next
  case False
  then show ?thesis by (simp add: label_to_ind_unknown)
qed

lemma kept_pairs_count:
  "length (filter (\<lambda>(t, p). p < length labels \<and> t < length labels)
             (zip (map (label_to_ind labels) ys) (map (label_to_ind labels) ps)))
   = length (filter (\<lambda>(y, p). y \<in> set labels \<and> p \<in> set labels) (zip ys ps))"
proof (induction ys arbitrary: ps)
  case Nil
  show ?case by simp
next
  case (Cons y ys)
  show ?case
  proof (cases ps)
    case Nil
    then show ?thesis by simp
  next
    case (Cons p ps')
    show ?thesis
      unfolding Cons using Cons.IH[of ps'] by (simp add: label_to_ind_lt_iff)
  qed
qed

lemma cells_total_filtered:
  "cells_total (coo_to_array n (filter (\<lambda>(t, p). p < n \<and> t < n) es))
     = length (filter (\<lambda>(t, p). p < n \<and> t < n) es)"
proof -
  have "filter (\<lambda>(a, b). a < n \<and> b < n) (filter (\<lambda>(t, p). p < n \<and> t < n) es)
      = filter (\<lambda>(t, p). p < n \<and> t < n) es"
    by (induction es) auto
  then show ?thesis by (simp add: cells_total_coo)
qed

lemma confusion_matrix_result:
  assumes len: "length ys = length ps"
    and run: "confusion_matrix (map Some ys) (map Some ps) labels = Inr cm"
  shows "cells_total cm = length (filter (\<lambda>(y, p). y \<in> set labels \<and> p \<in> set labels) (zip ys ps))"
    and "length cm = length labels"
    and "list_all (\<lambda>row. length row = length labels) cm"
proof -
  let ?n = "length labels"
  let ?kept = "filter (\<lambda>(t, p). p < ?n \<and> t < ?n)
      (zip (map (label_to_ind labels) ys) (map (label_to_ind labels) ps))"
  from len have ct: "check_targets (map Some ys) (map Some ps) = Inr (ys, ps)"
    by (rule check_targets_labels)
  from run have cm: "cm = (if ys = [] then coo_to_array ?n [] else coo_to_array ?n ?kept)"
    unfolding confusion_matrix_def ct sum.case prod.case Let_def coo_to_array_Nil
    by (auto split: if_splits)
  have "cells_total cm = length ?kept"
  proof (cases "ys = []")
    case True
    with cm show ?thesis by (simp add: cells_total_coo)
  next
    case False
    with cm show ?thesis by (simp only: if_False cells_total_filtered)
  qed
  then show "cells_total cm = length (filter (\<lambda>(y, p). y \<in> set labels \<and> p \<in> set labels) (zip ys ps))"
    by (simp only: kept_pairs_count)
  from cm show "length cm = length labels"
    by (simp add: coo_to_array_def)
  from cm show "list_all (\<lambda>row. length row = length labels) cm"
    by (simp add: coo_to_array_def list_all_iff)
qed

text \<open>
  Claim C5, amended. For any two sequences of labels of one length, every table that the
  Cross-tabulator returns is a square table of natural numbers, one row and one column
  for each declared label, and its cells sum to the number of pairs in which both
  labels belong to the declared label list. So when all labels of the two sequences
  belong to the declared, non-empty list, a table is returned and its cells sum to the
  number of pairs. The example of the claim: grouping \<open>[m, f, n, m]\<close> gives
  \<open>[m, f, m, m]\<close>, the table of that against \<open>[m, f, m, f]\<close> over \<open>[m, f]\<close> is
  \<open>[[2, 1], [0, 1]]\<close> with the sum 4, and the diagonal ratio is 3/4.
\<close>

theorem crosstab_total:
  assumes "length ys = length ps"
  shows "(confusion_matrix (map Some ys) (map Some ps) labels = Inr cm \<longrightarrow>
            cells_total cm = length (filter (\<lambda>(y, p). y \<in> set labels \<and> p \<in> set labels) (zip ys ps))
          \<and> length cm = length labels
          \<and> list_all (\<lambda>row. length row = length labels) cm)
       \<and> (labels \<noteq> [] \<and> set ys \<subseteq> set labels \<and> set ps \<subseteq> set labels \<longrightarrow>
            (\<exists>t. confusion_matrix (map Some ys) (map Some ps) labels = Inr t
                \<and> cells_total t = length ys))"
proof -
  have known: "\<exists>t. confusion_matrix (map Some ys) (map Some ps) labels = Inr t \<and> cells_total t = length ys"
    if "labels \<noteq> []" and ys: "set ys \<subseteq> set labels" and ps: "set ps \<subseteq> set labels"
  proof -
    let ?t = "coo_to_array (length labels)
      (zip (map (label_to_ind labels) ys) (map (label_to_ind labels) ps))"
    have 1: "confusion_matrix (map Some ys) (map Some ps) labels = Inr ?t"
      using assms ys ps that(1) by (rule confusion_matrix_known)
    have "cells_total ?t = length (zip ys ps)"
      unfolding cells_total_coo using ys ps by (rule known_entries_total)
    with assms have "cells_total ?t = length ys" by simp
    with 1 show ?thesis by blast
  qed
  from confusion_matrix_result[OF assms] known show ?thesis by blast
qed

theorem crosstab_total_witness:
  "length [''m'', ''f'', ''m'', ''m''] = length [''m'', ''f'', ''m'', ''f'']
   \<and> set [''m'', ''f'', ''m'', ''m''] \<subseteq> set [''m'', ''f'']
   \<and> set [''m'', ''f'', ''m'', ''f''] \<subseteq> set [''m'', ''f'']
   \<and> series_map Grouper (map Some [''m'', ''f'', ''n'', ''m''])
       = Inr (map Some [''m'', ''f'', ''m'', ''m''])
   \<and> confusion_matrix (map Some [''m'', ''f'', ''m'', ''m'']) (map Some [''m'', ''f'', ''m'', ''f''])
         [''m'', ''f'']
       = Inr [[2, 1], [0, 1]]
   \<and> cells_total [[2, 1], [0, 1]] = 4
   \<and> diagonal_ratio [[2, 1], [0, 1]] = Some (3 / 4)"
proof -
  have h1: "length [''m'', ''f'', ''m'', ''m''] = length [''m'', ''f'', ''m'', ''f'']" by simp
  have h2: "set [''m'', ''f'', ''m'', ''m''] \<subseteq> set [''m'', ''f'']" by simp
  have h3: "set [''m'', ''f'', ''m'', ''f''] \<subseteq> set [''m'', ''f'']" by simp
  have h4: "[''m'', ''f''] \<noteq> []" by simp
  have run: "confusion_matrix (map Some [''m'', ''f'', ''m'', ''m'']) (map Some [''m'', ''f'', ''m'', ''f''])
         [''m'', ''f''] = Inr [[2, 1], [0, 1]]"
    by code_simp
  from crosstab_total[OF h1, of "[''m'', ''f'']"] h2 h3 h4 obtain t
    where "confusion_matrix (map Some [''m'', ''f'', ''m'', ''m'']) (map Some [''m'', ''f'', ''m'', ''f''])
         [''m'', ''f''] = Inr t" and "cells_total t = length [''m'', ''f'', ''m'', ''m'']"
    by blast
  with run have sum: "cells_total [[2, 1], [0, 1]] = 4" by simp
  have grp: "series_map Grouper (map Some [''m'', ''f'', ''n'', ''m''])
       = Inr (map Some [''m'', ''f'', ''m'', ''m''])"
    by (simp add: Grouper_def grouping_def)
  have ratio: "diagonal_ratio [[2, 1], [0, 1]] = Some (3 / 4)"
    by (simp add: diagonal_ratio_def cells_total_def diagonal_def)
  from h1 h2 h3 run sum grp ratio show ?thesis by blast
qed

section \<open>The run of the notebook\<close>

lemma column_of_labels:
  assumes "\<And>x. x \<in> set xs \<Longrightarrow> \<exists>v. f x = Some v \<and> v \<in> A"
  shows "map f xs = map Some (map (the \<circ> f) xs) \<and> set (map (the \<circ> f) xs) \<subseteq> A"
  using assms by (induction xs) fastforce+

lemma kept_row_labels:
  assumes "r \<in> set (dropna (map extract_genders ns))"
  shows "(\<exists>d. de_gender (finish r) = Some d \<and> d \<in> set [''m'', ''f'', ''n''])
       \<and> (\<exists>f. fr_gender (finish r) = Some f \<and> f \<in> set [''m'', ''f''])"
proof -
  from assms obtain e where r: "r = extract_genders e" and "\<not> has_nan r"
    by (auto simp: dropna_def)
  then obtain m1 m2 where m1: "str_extract (gender_pattern ''mfn'') (de e) = Some m1"
    and m2: "str_extract (gender_pattern ''mf'') (fr e) = Some m2"
    by (auto simp: has_nan_def extract_genders_def de_pattern_def fr_pattern_def)
  from str_extract_tag(2)[OF m1] have "[m1 ! 1] \<in> set [''m'', ''f'', ''n'']" by auto
  moreover from str_extract_tag(2)[OF m2] have "[m2 ! 1] \<in> set [''m'', ''f'']" by auto
  moreover have "de_gender (finish r) = Some [m1 ! 1]" and "fr_gender (finish r) = Some [m2 ! 1]"
    using m1 m2 by (simp_all add: r finish_def extract_genders_def de_pattern_def fr_pattern_def)
  ultimately show ?thesis by simp
qed

lemma nouns_gendered_columns:
  assumes "de_object dt" and "fr_object dt"
  obtains ng dl fl where "nouns_gendered dt ns = Inr ng"
    and "map de_gender ng = map Some dl" and "set dl \<subseteq> set [''m'', ''f'', ''n'']"
    and "map fr_gender ng = map Some fl" and "set fl \<subseteq> set [''m'', ''f'']"
proof -
  let ?ng = "map finish (dropna (map extract_genders ns))"
  have de: "\<exists>v. de_gender g = Some v \<and> v \<in> set [''m'', ''f'', ''n'']" if "g \<in> set ?ng" for g
    using that kept_row_labels by auto
  have fr: "\<exists>v. fr_gender g = Some v \<and> v \<in> set [''m'', ''f'']" if "g \<in> set ?ng" for g
    using that kept_row_labels by auto
  from column_of_labels[of ?ng de_gender, OF de] column_of_labels[of ?ng fr_gender, OF fr]
    nouns_gendered_eq[OF assms, of ns] that
  show thesis by blast
qed

lemma group_genders_eq:
  "group_genders ng = Inr (map (\<lambda>r. add_grouped r (grouped_cell (de_gender r))) ng)"
proof -
  have "series_map Grouper (map de_gender ng) = Inr (map grouped_cell (map de_gender ng))"
    by (rule series_map_pointwise) (simp add: Grouper_def grouped_cell_def split: option.splits)
  moreover have "map2 add_grouped ng (map grouped_cell (map de_gender ng))
      = map (\<lambda>r. add_grouped r (grouped_cell (de_gender r))) ng"
    by (simp add: comp_def map2_same)
  ultimately show ?thesis by (simp add: group_genders_def)
qed

lemma grouping_known: "d \<in> set [''m'', ''f'', ''n''] \<Longrightarrow> \<exists>g. grouping d = Some g \<and> g \<in> set [''m'', ''f'']"
  by (auto simp: grouping_def)

lemma group_genders_columns:
  assumes "map de_gender ng = map Some dl" and "set dl \<subseteq> set [''m'', ''f'', ''n'']"
  obtains gg gl where "group_genders ng = Inr gg"
    and "map de_gender gg = map de_gender ng" and "map fr_gender gg = map fr_gender ng"
    and "map de_gender_grouped gg = map Some gl" and "set gl \<subseteq> set [''m'', ''f'']"
    and "gl = map (the \<circ> grouping) dl"
proof -
  let ?gg = "map (\<lambda>r. add_grouped r (grouped_cell (de_gender r))) ng"
  have 1: "map de_gender ?gg = map de_gender ng" and 2: "map fr_gender ?gg = map fr_gender ng"
    by (simp_all add: add_grouped_def comp_def)
  have "map de_gender_grouped ?gg = map grouped_cell (map de_gender ng)"
    by (simp add: add_grouped_def comp_def)
  also have "\<dots> = map grouping dl"
    unfolding assms(1) by (simp add: grouped_cell_def comp_def)
  finally have 3: "map de_gender_grouped ?gg = map grouping dl" .
  have "\<exists>v. grouping d = Some v \<and> v \<in> set [''m'', ''f'']" if "d \<in> set dl" for d
    using that assms(2) grouping_known by blast
  from column_of_labels[of dl grouping, OF this]
  have 4: "map grouping dl = map Some (map (the \<circ> grouping) dl)"
    and 5: "set (map (the \<circ> grouping) dl) \<subseteq> set [''m'', ''f'']"
    by blast+
  from that[OF group_genders_eq 1 2 _ 5 refl] 3 4 show thesis by simp
qed

lemma confusion_matrix_table_of:
  assumes "length ys = length ps" and "set ys \<subseteq> set labels" and "set ps \<subseteq> set labels"
    and "labels \<noteq> []"
  shows "confusion_matrix (map Some ys) (map Some ps) labels = Inr (table_of labels ys ps)"
  unfolding table_of_def using assms by (rule confusion_matrix_known)

lemma table_of_total:
  assumes "length ys = length ps" and "set ys \<subseteq> set labels" and "set ps \<subseteq> set labels"
  shows "cells_total (table_of labels ys ps) = length ys"
proof -
  have "cells_total (table_of labels ys ps) = length (zip ys ps)"
    unfolding table_of_def cells_total_coo using assms(2,3) by (rule known_entries_total)
  with assms(1) show ?thesis by simp
qed

lemma table_of_diagonal:
  assumes "set ys \<subseteq> set labels" and "set ps \<subseteq> set labels"
  shows "sum_list (diagonal (table_of labels ys ps)) = length (filter (\<lambda>(y, p). y = p) (zip ys ps))"
  unfolding table_of_def diagonal_total_coo using assms by (rule known_entries_diagonal)

lemma all_agree_iff:
  assumes "length ys = length ps"
  shows "length (filter (\<lambda>(y, p). y = p) (zip ys ps)) = length ys \<longleftrightarrow> ys = ps"
  using assms
proof (induction ys ps rule: list_induct2)
  case Nil
  show ?case by simp
next
  case (Cons y ys p ps)
  have "length (filter (\<lambda>(y, p). y = p) (zip ys ps)) \<le> length ys"
    using length_filter_le[of "\<lambda>(y, p). y = p" "zip ys ps"] Cons.hyps by simp
  with Cons.IH show ?case by auto
qed

lemma loaded_dtypes:
  "de_object (infer_dtypes converts (map drop_comment loaded)) = object_column converts (map de loaded)"
  "fr_object (infer_dtypes converts (map drop_comment loaded)) = object_column converts (map fr loaded)"
  by (simp_all add: infer_dtypes_def drop_comment_def comp_def)

lemma notebook_error:
  assumes "\<not> text_columns converts loaded"
  shows "notebook converts loaded = Inl AttributeError"
proof -
  from assms have "\<not> (de_object (infer_dtypes converts (map drop_comment loaded))
      \<and> fr_object (infer_dtypes converts (map drop_comment loaded)))"
    by (simp add: loaded_dtypes text_columns_def)
  then have "nouns_gendered (infer_dtypes converts (map drop_comment loaded))
      (Filter is_noun (map drop_comment loaded)) = Inl AttributeError"
    by (rule nouns_gendered_error)
  then show ?thesis by (simp add: notebook_def Let_def)
qed

lemma notebook_returns_text:
  assumes "notebook converts loaded = Inr out"
  shows "text_columns converts loaded"
  using assms notebook_error[of converts loaded] by auto

lemma notebook_run:
  assumes tc: "text_columns converts loaded"
  obtains ng gg dl fl gl where
    "nouns_gendered (infer_dtypes converts (map drop_comment loaded))
       (Filter is_noun (map drop_comment loaded)) = Inr ng"
    and "group_genders ng = Inr gg"
    and "map de_gender ng = map Some dl" and "map fr_gender ng = map Some fl"
    and "map de_gender gg = map Some dl" and "map fr_gender gg = map Some fl"
    and "map de_gender_grouped gg = map Some gl"
    and "set dl \<subseteq> set [''m'', ''f'', ''n'']" and "set fl \<subseteq> set [''m'', ''f'']"
    and "set gl \<subseteq> set [''m'', ''f'']"
    and "length dl = length fl" and "length gl = length fl"
    and "notebook converts loaded =
           Inr \<lparr>out_gendered = gg,
                out_cm = table_of [''m'', ''f'', ''n''] dl fl,
                out_cm2 = table_of [''m'', ''f''] gl fl,
                out_ratio = diagonal_ratio (table_of [''m'', ''f''] gl fl),
                out_chi2_table = first_two_columns (table_of [''m'', ''f'', ''n''] dl fl)\<rparr>"
proof -
  let ?ns = "Filter is_noun (map drop_comment loaded)"
  let ?dt = "infer_dtypes converts (map drop_comment loaded)"
  from tc have flags: "de_object ?dt" "fr_object ?dt"
    by (simp_all add: loaded_dtypes text_columns_def)
  obtain ng dl fl where ng: "nouns_gendered ?dt ?ns = Inr ng"
    and dl: "map de_gender ng = map Some dl" "set dl \<subseteq> set [''m'', ''f'', ''n'']"
    and fl: "map fr_gender ng = map Some fl" "set fl \<subseteq> set [''m'', ''f'']"
    using flags by (rule nouns_gendered_columns)
  obtain gg gl where gg: "group_genders ng = Inr gg"
    and cols: "map de_gender gg = map de_gender ng" "map fr_gender gg = map fr_gender ng"
    and gl: "map de_gender_grouped gg = map Some gl" "set gl \<subseteq> set [''m'', ''f'']"
    and gl_def: "gl = map (the \<circ> grouping) dl"
    using dl by (rule group_genders_columns)
  from dl(1) fl(1) have len: "length dl = length fl"
    by (metis length_map)
  from gl_def len have len2: "length gl = length fl" by simp
  from fl(2) have fl3: "set fl \<subseteq> set [''m'', ''f'', ''n'']" by auto
  have cm: "confusion_matrix (map de_gender ng) (map fr_gender ng) [''m'', ''f'', ''n'']
      = Inr (table_of [''m'', ''f'', ''n''] dl fl)"
    unfolding dl(1) fl(1) using len dl(2) fl3 by (rule confusion_matrix_table_of) simp
  have cm2: "confusion_matrix (map de_gender_grouped gg) (map fr_gender gg) [''m'', ''f'']
      = Inr (table_of [''m'', ''f''] gl fl)"
    unfolding gl(1) cols(2) fl(1) using len2 gl(2) fl(2) by (rule confusion_matrix_table_of) simp
  have ct1: "check_targets (map de_gender gg) (map fr_gender gg) = Inr (dl, fl)"
    unfolding cols dl(1) fl(1) using len by (rule check_targets_labels)
  have ct2: "check_targets (map de_gender_grouped gg) (map fr_gender gg) = Inr (gl, fl)"
    unfolding gl(1) cols(2) fl(1) using len2 by (rule check_targets_labels)
  have run: "notebook converts loaded =
           Inr \<lparr>out_gendered = gg,
                out_cm = table_of [''m'', ''f'', ''n''] dl fl,
                out_cm2 = table_of [''m'', ''f''] gl fl,
                out_ratio = diagonal_ratio (table_of [''m'', ''f''] gl fl),
                out_chi2_table = first_two_columns (table_of [''m'', ''f'', ''n''] dl fl)\<rparr>"
    unfolding notebook_def Let_def ng sum.case cm gg cm2 ct1 ct2 prod.case ..
  from cols dl(1) fl(1) have "map de_gender gg = map Some dl" and "map fr_gender gg = map Some fl"
    by simp_all
  with that ng gg dl fl gl len len2 run show thesis by blast
qed


lemma same_columns_iff:
  "list_all (\<lambda>g. f g = h g) xs \<longleftrightarrow> map f xs = map h xs"
  by (induction xs) auto

lemma ratio_on_text_columns:
  assumes tc: "text_columns converts loaded"
  shows "\<exists>out. notebook converts loaded = Inr out
     \<and> confusion_matrix (map de_gender_grouped (out_gendered out)) (map fr_gender (out_gendered out))
           [''m'', ''f''] = Inr (out_cm2 out)
     \<and> out_ratio out = diagonal_ratio (out_cm2 out)
     \<and> (cells_total (out_cm2 out) \<noteq> 0 \<longrightarrow>
          (\<exists>q. out_ratio out = Some q \<and> 0 \<le> q \<and> q \<le> 1
             \<and> (q = 1 \<longleftrightarrow> list_all (\<lambda>g. de_gender_grouped g = fr_gender g) (out_gendered out))))"
proof -
  obtain ng gg dl fl gl where
    gg_fr: "map fr_gender gg = map Some fl"
    and gg_gr: "map de_gender_grouped gg = map Some gl"
    and fl: "set fl \<subseteq> set [''m'', ''f'']" and gl: "set gl \<subseteq> set [''m'', ''f'']"
    and len: "length gl = length fl"
    and run: "notebook converts loaded =
           Inr \<lparr>out_gendered = gg,
                out_cm = table_of [''m'', ''f'', ''n''] dl fl,
                out_cm2 = table_of [''m'', ''f''] gl fl,
                out_ratio = diagonal_ratio (table_of [''m'', ''f''] gl fl),
                out_chi2_table = first_two_columns (table_of [''m'', ''f'', ''n''] dl fl)\<rparr>"
    using tc by (rule notebook_run)
  let ?cm2 = "table_of [''m'', ''f''] gl fl"
  have cm2: "confusion_matrix (map de_gender_grouped gg) (map fr_gender gg) [''m'', ''f''] = Inr ?cm2"
    unfolding gg_gr gg_fr using len gl fl by (rule confusion_matrix_table_of) simp
  have tot: "cells_total ?cm2 = length gl"
    using len gl fl by (rule table_of_total)
  have dia: "sum_list (diagonal ?cm2) = length (filter (\<lambda>(y, p). y = p) (zip gl fl))"
    using gl fl by (rule table_of_diagonal)
  have le: "sum_list (diagonal ?cm2) \<le> cells_total ?cm2"
    unfolding dia tot using length_filter_le[of "\<lambda>(y, p). y = p" "zip gl fl"] len by simp
  have agree: "sum_list (diagonal ?cm2) = cells_total ?cm2
      \<longleftrightarrow> list_all (\<lambda>g. de_gender_grouped g = fr_gender g) gg"
  proof -
    have "sum_list (diagonal ?cm2) = cells_total ?cm2 \<longleftrightarrow> gl = fl"
      unfolding dia tot using len by (rule all_agree_iff)
    also have "gl = fl \<longleftrightarrow> map Some gl = map Some fl"
      by (simp add: inj_map_eq_map)
    also have "\<dots> \<longleftrightarrow> list_all (\<lambda>g. de_gender_grouped g = fr_gender g) gg"
      unfolding same_columns_iff gg_gr gg_fr ..
    finally show ?thesis .
  qed
  have ratio: "\<exists>q. diagonal_ratio ?cm2 = Some q \<and> 0 \<le> q \<and> q \<le> 1
             \<and> (q = 1 \<longleftrightarrow> list_all (\<lambda>g. de_gender_grouped g = fr_gender g) gg)"
    if nz: "cells_total ?cm2 \<noteq> 0"
  proof -
    let ?d = "sum_list (diagonal ?cm2)" and ?t = "cells_total ?cm2"
    let ?q = "(of_nat ?d / of_nat ?t) :: rat"
    from nz have pos: "(0::rat) < of_nat ?t" by simp
    have 1: "diagonal_ratio ?cm2 = Some ?q" using nz by (simp add: diagonal_ratio_def)
    have 2: "0 \<le> ?q" by simp
    from le have "(of_nat ?d :: rat) \<le> of_nat ?t" by simp
    with pos have 3: "?q \<le> 1" by (simp add: divide_le_eq)
    from pos have "?q = 1 \<longleftrightarrow> (of_nat ?d :: rat) = of_nat ?t" by (simp add: divide_eq_eq)
    also have "\<dots> \<longleftrightarrow> ?d = ?t" by (rule of_nat_eq_iff)
    finally have 4: "?q = 1 \<longleftrightarrow> list_all (\<lambda>g. de_gender_grouped g = fr_gender g) gg"
      using agree by simp
    from 1 2 3 4 show ?thesis by blast
  qed
  show ?thesis
    unfolding run using cm2 ratio by (intro exI[of _ "\<lparr>out_gendered = gg,
                out_cm = table_of [''m'', ''f'', ''n''] dl fl,
                out_cm2 = table_of [''m'', ''f''] gl fl,
                out_ratio = diagonal_ratio (table_of [''m'', ''f''] gl fl),
                out_chi2_table = first_two_columns (table_of [''m'', ''f'', ''n''] dl fl)\<rparr>"]) simp
qed

text \<open>
  Claim C4. When the German and the French column of the loaded table are columns of
  text, the steps up to the ratio raise no exception. Whenever they return, the
  contingency table of the grouped German gender against the French gender has this
  property: when its total is not zero, the diagonal ratio (the sum of the diagonal
  cells divided by the sum of all cells, as an exact quotient) is a number between 0
  and 1, and it is 1 if and only if in every retained row the grouped German label is
  the French label.
\<close>

theorem diagonal_ratio_agreement:
  "(text_columns converts loaded \<longrightarrow> (\<exists>res. notebook converts loaded = Inr res))
   \<and> (notebook converts loaded = Inr out \<longrightarrow>
        confusion_matrix (map de_gender_grouped (out_gendered out)) (map fr_gender (out_gendered out))
           [''m'', ''f''] = Inr (out_cm2 out)
      \<and> out_ratio out = diagonal_ratio (out_cm2 out)
      \<and> (cells_total (out_cm2 out) \<noteq> 0 \<longrightarrow>
          (\<exists>q. out_ratio out = Some q \<and> 0 \<le> q \<and> q \<le> 1
             \<and> (q = 1 \<longleftrightarrow> list_all (\<lambda>g. de_gender_grouped g = fr_gender g) (out_gendered out)))))"
proof -
  have 1: "\<exists>res. notebook converts loaded = Inr res" if "text_columns converts loaded"
    using ratio_on_text_columns[OF that] by blast
  have 2: "confusion_matrix (map de_gender_grouped (out_gendered out)) (map fr_gender (out_gendered out))
           [''m'', ''f''] = Inr (out_cm2 out)
      \<and> out_ratio out = diagonal_ratio (out_cm2 out)
      \<and> (cells_total (out_cm2 out) \<noteq> 0 \<longrightarrow>
          (\<exists>q. out_ratio out = Some q \<and> 0 \<le> q \<and> q \<le> 1
             \<and> (q = 1 \<longleftrightarrow> list_all (\<lambda>g. de_gender_grouped g = fr_gender g) (out_gendered out))))"
    if r: "notebook converts loaded = Inr out"
  proof -
    from r have "text_columns converts loaded" by (rule notebook_returns_text)
    from ratio_on_text_columns[OF this] obtain res where "notebook converts loaded = Inr res"
      and p: "confusion_matrix (map de_gender_grouped (out_gendered res)) (map fr_gender (out_gendered res))
           [''m'', ''f''] = Inr (out_cm2 res)
      \<and> out_ratio res = diagonal_ratio (out_cm2 res)
      \<and> (cells_total (out_cm2 res) \<noteq> 0 \<longrightarrow>
          (\<exists>q. out_ratio res = Some q \<and> 0 \<le> q \<and> q \<le> 1
             \<and> (q = 1 \<longleftrightarrow> list_all (\<lambda>g. de_gender_grouped g = fr_gender g) (out_gendered res))))"
      by blast
    with r have eq: "res = out" by simp
    from p show ?thesis unfolding eq .
  qed
  from 1 2 show ?thesis by blast
qed

theorem diagonal_ratio_agreement_witness:
  "text_columns digits_only sample_records
   \<and> notebook digits_only sample_records = Inr sample_outcome
   \<and> out_cm2 sample_outcome = [[2, 1], [0, 1]]
   \<and> cells_total (out_cm2 sample_outcome) \<noteq> 0
   \<and> out_ratio sample_outcome = Some (3 / 4)
   \<and> (0::rat) \<le> 3 / 4 \<and> (3::rat) / 4 \<le> 1
   \<and> \<not> list_all (\<lambda>g. de_gender_grouped g = fr_gender g) (out_gendered sample_outcome)"
proof -
  have tc: "text_columns digits_only sample_records" by code_simp
  have run: "notebook digits_only sample_records = Inr sample_outcome" by code_simp
  have nz: "cells_total (out_cm2 sample_outcome) \<noteq> 0"
    by (simp add: sample_outcome_def cells_total_def)
  from diagonal_ratio_agreement[of digits_only sample_records sample_outcome] run
  have imp: "cells_total (out_cm2 sample_outcome) \<noteq> 0 \<longrightarrow>
          (\<exists>q. out_ratio sample_outcome = Some q \<and> 0 \<le> q \<and> q \<le> 1
             \<and> (q = 1 \<longleftrightarrow> list_all (\<lambda>g. de_gender_grouped g = fr_gender g)
                   (out_gendered sample_outcome)))"
    by blast
  with nz obtain q where q: "out_ratio sample_outcome = Some q" and range: "0 \<le> q" "q \<le> 1"
    and one: "q = 1 \<longleftrightarrow> list_all (\<lambda>g. de_gender_grouped g = fr_gender g) (out_gendered sample_outcome)"
    by blast
  have r: "out_ratio sample_outcome = Some (3 / 4)" by (simp add: sample_outcome_def)
  with q have "q = 3 / 4" by simp
  with range one have "(0::rat) \<le> 3 / 4" and "(3::rat) / 4 \<le> 1"
    and "\<not> list_all (\<lambda>g. de_gender_grouped g = fr_gender g) (out_gendered sample_outcome)"
    by auto
  moreover have "out_cm2 sample_outcome = [[2, 1], [0, 1]]" by (simp add: sample_outcome_def)
  ultimately show ?thesis using tc run nz r by blast
qed

section \<open>The French column and the lengths of the columns\<close>

lemma french_index: "p \<in> set [''m'', ''f''] \<Longrightarrow> label_to_ind [''m'', ''f'', ''n''] p < 2"
  by (auto simp: label_to_ind_def)

lemma neuter_column_empty:
  assumes "set fl \<subseteq> set [''m'', ''f'']"
  shows "count_list (zip (map (label_to_ind [''m'', ''f'', ''n'']) dl)
                         (map (label_to_ind [''m'', ''f'', ''n'']) fl)) (i, 2) = 0"
proof -
  let ?es = "zip (map (label_to_ind [''m'', ''f'', ''n'']) dl) (map (label_to_ind [''m'', ''f'', ''n'']) fl)"
  have "(i, 2) \<notin> set ?es"
  proof
    assume "(i, 2) \<in> set ?es"
    then obtain y p where "(i, 2) = (label_to_ind [''m'', ''f'', ''n''] y, label_to_ind [''m'', ''f'', ''n''] p)"
      and "p \<in> set fl"
      using in_zip_maps by blast
    with assms french_index[of p] show False by auto
  qed
  then show ?thesis by (simp only: count_list_0_iff not_False_eq_True)
qed

lemma table3_rows:
  assumes "set fl \<subseteq> set [''m'', ''f'']"
  shows "length (table_of [''m'', ''f'', ''n''] dl fl) = 3
       \<and> list_all (\<lambda>row. length row = 3 \<and> row ! 2 = 0) (table_of [''m'', ''f'', ''n''] dl fl)"
proof -
  show ?thesis
    using neuter_column_empty[OF assms, of dl]
    by (simp add: table_of_def coo_to_array_def numeral_2_eq_2)
qed

lemma first_two_columns_total:
  assumes "list_all (\<lambda>row. length row = 3 \<and> row ! 2 = 0) cm"
  shows "cells_total (first_two_columns cm) = cells_total cm"
  using assms
proof (induction cm)
  case Nil
  show ?case by (simp add: cells_total_def first_two_columns_def)
next
  case (Cons row cm)
  then have "length row = 3" and z: "row ! 2 = 0" by simp_all
  then obtain a b c where row: "row = [a, b, c]"
    by (auto simp: numeral_3_eq_3 length_Suc_conv)
  with z have "c = 0" by simp
  with row have "sum_list (take 2 row) = sum_list row" by (simp add: numeral_2_eq_2)
  with Cons show ?case by (simp add: cells_total_def first_two_columns_def)
qed

lemma neuter_on_text_columns:
  assumes tc: "text_columns converts loaded"
  shows "\<exists>out. notebook converts loaded = Inr out
     \<and> list_all (\<lambda>g. fr_gender g = Some ''m'' \<or> fr_gender g = Some ''f'') (out_gendered out)
     \<and> confusion_matrix (map de_gender (out_gendered out)) (map fr_gender (out_gendered out))
           [''m'', ''f'', ''n''] = Inr (out_cm out)
     \<and> length (out_cm out) = 3
     \<and> list_all (\<lambda>row. length row = 3 \<and> row ! 2 = 0) (out_cm out)
     \<and> out_chi2_table out = map (take 2) (out_cm out)
     \<and> cells_total (out_chi2_table out) = cells_total (out_cm out)"
proof -
  obtain ng gg dl fl gl where
    gg_de: "map de_gender gg = map Some dl" and gg_fr: "map fr_gender gg = map Some fl"
    and dl: "set dl \<subseteq> set [''m'', ''f'', ''n'']" and fl: "set fl \<subseteq> set [''m'', ''f'']"
    and len: "length dl = length fl"
    and run: "notebook converts loaded =
           Inr \<lparr>out_gendered = gg,
                out_cm = table_of [''m'', ''f'', ''n''] dl fl,
                out_cm2 = table_of [''m'', ''f''] gl fl,
                out_ratio = diagonal_ratio (table_of [''m'', ''f''] gl fl),
                out_chi2_table = first_two_columns (table_of [''m'', ''f'', ''n''] dl fl)\<rparr>"
    using tc by (rule notebook_run)
  let ?cm = "table_of [''m'', ''f'', ''n''] dl fl"
  have 1: "list_all (\<lambda>g. fr_gender g = Some ''m'' \<or> fr_gender g = Some ''f'') gg"
  proof -
    have "\<forall>c\<in>set (map fr_gender gg). c = Some ''m'' \<or> c = Some ''f''"
      unfolding gg_fr using fl by auto
    then show ?thesis by (simp add: list_all_iff)
  qed
  from fl have fl3: "set fl \<subseteq> set [''m'', ''f'', ''n'']" by auto
  have 2: "confusion_matrix (map de_gender gg) (map fr_gender gg) [''m'', ''f'', ''n''] = Inr ?cm"
    unfolding gg_de gg_fr using len dl fl3 by (rule confusion_matrix_table_of) simp
  from table3_rows[OF fl, of dl] have 3: "length ?cm = 3"
    and 4: "list_all (\<lambda>row. length row = 3 \<and> row ! 2 = 0) ?cm"
    by blast+
  have 5: "first_two_columns ?cm = map (take 2) ?cm" by (simp add: first_two_columns_def)
  have 6: "cells_total (first_two_columns ?cm) = cells_total ?cm"
    using 4 by (rule first_two_columns_total)
  show ?thesis
    unfolding run using 1 2 3 4 5 6 by (intro exI[of _ "\<lparr>out_gendered = gg,
                out_cm = table_of [''m'', ''f'', ''n''] dl fl,
                out_cm2 = table_of [''m'', ''f''] gl fl,
                out_ratio = diagonal_ratio (table_of [''m'', ''f''] gl fl),
                out_chi2_table = first_two_columns (table_of [''m'', ''f'', ''n''] dl fl)\<rparr>"]) simp
qed

text \<open>
  Claim C9. When the German and the French column of the loaded table are columns of
  text, the steps up to the tables raise no exception. Whenever they return, every
  French label among the retained rows is \<^verbatim>\<open>m\<close> or \<^verbatim>\<open>f\<close>, never \<^verbatim>\<open>n\<close>. So in the
  ungrouped table over the labels \<open>[m, f, n]\<close>, which has three rows of three cells, the
  third cell of every row (the column of the French label \<^verbatim>\<open>n\<close>) is zero, and the table
  cut down to its first two columns, as it is handed to the chi-squared test, has the
  same sum of cells.
\<close>

theorem french_never_neuter:
  "(text_columns converts loaded \<longrightarrow> (\<exists>res. notebook converts loaded = Inr res))
   \<and> (notebook converts loaded = Inr out \<longrightarrow>
       list_all (\<lambda>g. fr_gender g = Some ''m'' \<or> fr_gender g = Some ''f'') (out_gendered out)
     \<and> confusion_matrix (map de_gender (out_gendered out)) (map fr_gender (out_gendered out))
           [''m'', ''f'', ''n''] = Inr (out_cm out)
     \<and> length (out_cm out) = 3
     \<and> list_all (\<lambda>row. length row = 3 \<and> row ! 2 = 0) (out_cm out)
     \<and> out_chi2_table out = map (take 2) (out_cm out)
     \<and> cells_total (out_chi2_table out) = cells_total (out_cm out))"
proof -
  have 1: "\<exists>res. notebook converts loaded = Inr res" if "text_columns converts loaded"
    using neuter_on_text_columns[OF that] by blast
  have 2: "list_all (\<lambda>g. fr_gender g = Some ''m'' \<or> fr_gender g = Some ''f'') (out_gendered out)
     \<and> confusion_matrix (map de_gender (out_gendered out)) (map fr_gender (out_gendered out))
           [''m'', ''f'', ''n''] = Inr (out_cm out)
     \<and> length (out_cm out) = 3
     \<and> list_all (\<lambda>row. length row = 3 \<and> row ! 2 = 0) (out_cm out)
     \<and> out_chi2_table out = map (take 2) (out_cm out)
     \<and> cells_total (out_chi2_table out) = cells_total (out_cm out)"
    if r: "notebook converts loaded = Inr out"
  proof -
    from r have "text_columns converts loaded" by (rule notebook_returns_text)
    from neuter_on_text_columns[OF this] obtain res where "notebook converts loaded = Inr res"
      and p: "list_all (\<lambda>g. fr_gender g = Some ''m'' \<or> fr_gender g = Some ''f'') (out_gendered res)
     \<and> confusion_matrix (map de_gender (out_gendered res)) (map fr_gender (out_gendered res))
           [''m'', ''f'', ''n''] = Inr (out_cm res)
     \<and> length (out_cm res) = 3
     \<and> list_all (\<lambda>row. length row = 3 \<and> row ! 2 = 0) (out_cm res)
     \<and> out_chi2_table res = map (take 2) (out_cm res)
     \<and> cells_total (out_chi2_table res) = cells_total (out_cm res)"
      by blast
    with r have eq: "res = out" by simp
    from p show ?thesis unfolding eq .
  qed
  from 1 2 show ?thesis by blast
qed

theorem french_never_neuter_witness:
  "text_columns digits_only sample_records
   \<and> notebook digits_only sample_records = Inr sample_outcome
   \<and> out_cm sample_outcome = [[1, 0, 0], [0, 1, 0], [1, 1, 0]]
   \<and> out_chi2_table sample_outcome = [[1, 0], [0, 1], [1, 1]]
   \<and> cells_total (out_chi2_table sample_outcome) = 4
   \<and> cells_total (out_cm sample_outcome) = 4"
proof -
  have tc: "text_columns digits_only sample_records" by code_simp
  have run: "notebook digits_only sample_records = Inr sample_outcome" by code_simp
  from french_never_neuter[of digits_only sample_records sample_outcome] run
  have eq: "cells_total (out_chi2_table sample_outcome) = cells_total (out_cm sample_outcome)"
    by blast
  have 4: "cells_total (out_cm sample_outcome) = 4"
    by (simp add: sample_outcome_def cells_total_def)
  with eq have "cells_total (out_chi2_table sample_outcome) = 4" by simp
  with tc run 4 show ?thesis by (simp add: sample_outcome_def)
qed




section \<open>Loader\<close>





end
